theory Spec2Isabelle
  imports Complex_Main "HOL-Library.Extended_Nat"
begin

section \<open>Batch slicing (utils/mnistLoader.ts)\<close>

text \<open>
  A tensor whose first axis indexes examples is a list of rows; the row type is left
  abstract (an image row is a 28x28x1 block, a label row a one-hot vector of 10).
  JavaScript numbers that hold counts and indices are natural numbers here.

  \<^verbatim>\<open>tensor.slice(begin, size)\<close> of the tensor library returns the rows
  \<open>begin .. begin + size - 1\<close> and throws when they do not all exist.
\<close>

datatype batch_error = EmptyDataset | SliceOutOfRange

definition tf_slice :: "'a list \<Rightarrow> nat \<Rightarrow> nat \<Rightarrow> batch_error + 'a list" where
  "tf_slice xs start len =
     (if start + len \<le> length xs then Inr (take len (drop start xs)) else Inl SliceOutOfRange)"

text \<open>
  \<^verbatim>\<open>const startIndex = (batchIndex * batchSize) % numExamples;\<close>
  \<^verbatim>\<open>const endIndex = Math.min(startIndex + batchSize, numExamples);\<close>
  With \<open>numExamples = 0\<close> the remainder is NaN in the source; \<open>getBatch\<close> below
  returns \<open>EmptyDataset\<close> there and never evaluates these two at 0.
\<close>

definition startIndex :: "nat \<Rightarrow> nat \<Rightarrow> nat \<Rightarrow> nat" where
  "startIndex numExamples batchSize batchIndex = (batchIndex * batchSize) mod numExamples"

definition endIndex :: "nat \<Rightarrow> nat \<Rightarrow> nat \<Rightarrow> nat" where
  "endIndex numExamples batchSize batchIndex =
     min (startIndex numExamples batchSize batchIndex + batchSize) numExamples"

definition getBatch :: "'i list \<Rightarrow> 'l list \<Rightarrow> nat \<Rightarrow> nat \<Rightarrow> batch_error + ('i list \<times> 'l list)" where
  "getBatch images labels batchSize batchIndex =
     (let numExamples = length images in
      if numExamples = 0 then Inl EmptyDataset
      else
        let s = startIndex numExamples batchSize batchIndex;
            e = endIndex numExamples batchSize batchIndex
        in case tf_slice images s (e - s) of
             Inl err \<Rightarrow> Inl err
           | Inr imgs \<Rightarrow>
               (case tf_slice labels s (e - s) of
                  Inl err \<Rightarrow> Inl err
                | Inr lbls \<Rightarrow> Inr (imgs, lbls)))"

text \<open>
  \<^verbatim>\<open>const numBatches = Math.ceil(numTrain / batchSize);\<close> (hooks/useModel.ts).
  Division by zero gives Infinity in the source (the batch loop then never ends), and
  0 / 0 gives NaN, against which every comparison \<open>batch < numBatches\<close> is false.
\<close>

definition num_batches :: "nat \<Rightarrow> nat \<Rightarrow> enat" where
  "num_batches numTrain batchSize =
     (if batchSize = 0 then (if numTrain = 0 then 0 else \<infinity>)
      else enat (nat \<lceil>real numTrain / real batchSize\<rceil>))"

section \<open>Class activation map (components/CAMViewer.jsx, computeCAM)\<close>

text \<open>
  JavaScript numbers that hold activations, importance scores and colour values are
  real numbers here (rounding error of the 64-bit floats is not modelled).

  A layer of the network is seen through its class name and the number of weight
  tensors \<^verbatim>\<open>getWeights()\<close> returns. The network itself is external: the
  parameter \<open>predictLayer i\<close> is the output of layer \<open>i\<close> for the current input
  with the batch axis dropped, \<^verbatim>\<open>convOutput.arraySync()[0]\<close>, a rectangular
  nested array of shape [height, width, filters].
\<close>

record layer =
  className :: string
  numWeights :: nat

datatype cam_error = NoConvLayer | CamException

text \<open>
  \<^verbatim>\<open>for (let i = model.layers.length - 1; i >= 0; i--)
    if (model.layers[i].getClassName() === 'Conv2D') { lastConvLayer = model.layers[i]; break; }\<close>
  The second argument counts the indices still to visit: the loop looks at index
  \<open>n\<close> when \<open>Suc n\<close> remain.
\<close>

fun lastConvLayer :: "layer list \<Rightarrow> nat \<Rightarrow> nat option" where
  "lastConvLayer ls 0 = None"
| "lastConvLayer ls (Suc n) =
     (if className (ls ! n) = ''Conv2D'' then Some n else lastConvLayer ls n)"

text \<open>\<^verbatim>\<open>model.layers.findIndex(l => l.getClassName() === 'Flatten')\<close>; \<open>None\<close> is -1.\<close>

fun findIndex :: "('a \<Rightarrow> bool) \<Rightarrow> 'a list \<Rightarrow> nat option" where
  "findIndex P [] = None"
| "findIndex P (x # xs) =
     (if P x then Some 0 else map_option Suc (findIndex P xs))"

text \<open>
  \<^verbatim>\<open>let weightedSum = 0;
  for (let f = 0; f < numFilters; f++) weightedSum += convOutputData[y][x][f];
  cam[y][x] = Math.max(0, weightedSum); // ReLU\<close>
\<close>

definition weightedSum :: "real list list list \<Rightarrow> nat \<Rightarrow> nat \<Rightarrow> nat \<Rightarrow> real" where
  "weightedSum convOutputData numFilters y x =
     foldl (\<lambda>acc f. acc + convOutputData ! y ! x ! f) 0 [0..<numFilters]"

definition importance_map :: "real list list list \<Rightarrow> nat \<Rightarrow> nat \<Rightarrow> nat \<Rightarrow> real list list" where
  "importance_map convOutputData convHeight convWidth numFilters =
     map (\<lambda>y. map (\<lambda>x. max 0 (weightedSum convOutputData numFilters y x)) [0..<convWidth])
       [0..<convHeight]"

text \<open>
  \<^verbatim>\<open>const flatCam = cam.flat();
  const maxVal = Math.max(...flatCam);  const minVal = Math.min(...flatCam);
  const range = maxVal - minVal || 1;
  cam[y][x] = (cam[y][x] - minVal) / range;\<close> for every cell.
  \<open>computeCAM\<close> reaches this code only with at least one cell (on an empty list the
  source's maximum is -Infinity, which has no counterpart here).
\<close>

definition maxVal :: "real list list \<Rightarrow> real" where
  "maxVal cam = Max (set (concat cam))"

definition minVal :: "real list list \<Rightarrow> real" where
  "minVal cam = Min (set (concat cam))"

definition cam_range :: "real list list \<Rightarrow> real" where
  "cam_range cam = (if maxVal cam - minVal cam = 0 then 1 else maxVal cam - minVal cam)"

definition normalize_cam :: "real list list \<Rightarrow> real list list" where
  "normalize_cam cam = map (map (\<lambda>v. (v - minVal cam) / cam_range cam)) cam"

record cam_result =
  convIndex :: nat
  importance :: "real list list"
  heatmap :: "real list list"

text \<open>
  The steps of \<open>computeCAM\<close> up to the normalised map. Every exception of the source
  is caught by its \<^verbatim>\<open>try/catch\<close> and ends the computation without a map
  (\<open>CamException\<close>): reading the kernel of an output layer without weights, reading
  \<^verbatim>\<open>outputShape\<close> of the layer before the first Flatten layer when there is none,
  and reading \<^verbatim>\<open>convOutputData[0].length\<close> or
  \<^verbatim>\<open>convOutputData[0][0].length\<close> of an activation without rows or columns.
\<close>

definition computeCAM :: "layer list \<Rightarrow> (nat \<Rightarrow> real list list list) \<Rightarrow> cam_error + cam_result" where
  "computeCAM layers predictLayer =
     (case lastConvLayer layers (length layers) of
        None \<Rightarrow> Inl NoConvLayer
      | Some i \<Rightarrow>
          let convOutputData = predictLayer i;
              outputLayer = layers ! (length layers - 1)
          in if numWeights outputLayer = 0 then Inl CamException
             else case findIndex (\<lambda>l. className l = ''Flatten'') layers of
                    None \<Rightarrow> Inl CamException
                  | Some flattenIndex \<Rightarrow>
                      if flattenIndex = 0 then Inl CamException
                      else if convOutputData = [] then Inl CamException
                      else if convOutputData ! 0 = [] then Inl CamException
                      else
                        let convHeight = length convOutputData;
                            convWidth = length (convOutputData ! 0);
                            numFilters = length (convOutputData ! 0 ! 0);
                            cam = importance_map convOutputData convHeight convWidth numFilters
                        in Inr \<lparr>convIndex = i, importance = cam, heatmap = normalize_cam cam\<rparr>)"

text \<open>
  \<^verbatim>\<open>Math.round\<close> rounds to the nearest integer, halves upwards. The hot colour
  map of \<open>computeCAM\<close>:
  \<^verbatim>\<open>const r = Math.min(255, Math.round(camVal * 3 * 255));
  const g = Math.min(255, Math.round(Math.max(0, camVal - 0.33) * 3 * 255));
  const b = Math.min(255, Math.round(Math.max(0, camVal - 0.67) * 3 * 255));\<close>
  and of utils/visualizationUtils.ts:
  \<^verbatim>\<open>const r = Math.round(255 * Math.min(1, t * 3));
  const g = Math.round(255 * Math.max(0, Math.min(1, (t - 0.33) * 3)));
  const b = Math.round(255 * Math.max(0, Math.min(1, (t - 0.67) * 3)));\<close>
\<close>

definition Math_round :: "real \<Rightarrow> int" where
  "Math_round x = \<lfloor>x + 1 / 2\<rfloor>"

definition cam_color :: "real \<Rightarrow> int \<times> int \<times> int" where
  "cam_color camVal =
     (min 255 (Math_round (camVal * 3 * 255)),
      min 255 (Math_round (max 0 (camVal - 33 / 100) * 3 * 255)),
      min 255 (Math_round (max 0 (camVal - 67 / 100) * 3 * 255)))"

definition hotColor :: "real \<Rightarrow> int \<times> int \<times> int" where
  "hotColor t =
     (Math_round (255 * min 1 (t * 3)),
      Math_round (255 * max 0 (min 1 ((t - 33 / 100) * 3))),
      Math_round (255 * max 0 (min 1 ((t - 67 / 100) * 3))))"

text \<open>The shape of an activation tensor: \<open>H\<close> rows of \<open>W\<close> cells of \<open>F\<close> filter values.\<close>

definition shaped :: "nat \<Rightarrow> nat \<Rightarrow> nat \<Rightarrow> real list list list \<Rightarrow> bool" where
  "shaped H W F d \<longleftrightarrow>
     length d = H \<and> list_all (\<lambda>row. length row = W \<and> list_all (\<lambda>cell. length cell = F) row) d"

section \<open>Training controller (hooks/useModel.ts)\<close>

subsection \<open>Data\<close>

text \<open>
  The network and the tensor library are external. A model object is known by a handle
  (a number); its weights, of an abstract type \<open>'w\<close>, live in a store that maps a
  handle to \<open>Some\<close> weights while the object is usable and to \<open>None\<close> once it has
  been disposed. \<open>trainOnBatch\<close> returns its metrics and the updated weights,
  \<open>evaluate\<close> returns validation loss and accuracy. A model compiled with one metric
  answers \<^verbatim>\<open>trainOnBatch\<close> with the array [loss, accuracy], one without metrics
  with the bare loss.
\<close>

datatype train_result = Scalar real | Metrics real real

record ('w, 'i, 'l) network =
  trainOnBatch :: "'w \<Rightarrow> 'i list \<Rightarrow> 'l list \<Rightarrow> train_result \<times> 'w"
  evaluate :: "'w \<Rightarrow> 'i list \<Rightarrow> 'l list \<Rightarrow> real \<times> real"

record ('i, 'l) MNISTData =
  trainImages :: "'i list"
  trainLabels :: "'l list"
  testImages :: "'i list"
  testLabels :: "'l list"
  numTrain :: nat
  numTest :: nat

text \<open>
  A history entry is a JavaScript number; \<open>None\<close> stands for NaN, which the source
  produces as 0 / 0 when an epoch has no batch.
\<close>

record TrainingHistory =
  loss :: "real option list"
  accuracy :: "real option list"
  valLoss :: "real option list"
  valAccuracy :: "real option list"

definition emptyHistory :: TrainingHistory where
  "emptyHistory = \<lparr>loss = [], accuracy = [], valLoss = [], valAccuracy = []\<rparr>"

text \<open>Fields: epoch, batch, totalBatches (absent at first), loss, accuracy.\<close>

datatype TrainingProgress = TrainingProgress nat nat "enat option" real real

datatype ModelSource = SourceNew | SourceLoaded | SourcePretrained

text \<open>
  The state of the hook: its React state, its refs, and the store of model objects.
  A state setter is an assignment. (The summary of the layers and the data-loading
  indicators are display state and are left out.)
\<close>

record ('w, 'i, 'l) hook =
  model :: "nat option"
  isTraining :: bool
  isPaused :: bool
  trainingProgress :: TrainingProgress
  trainingHistory :: TrainingHistory
  modelSource :: "ModelSource option"
  modelName :: "string option"
  trainedEpochs :: nat
  lastValAccuracy :: "real option"
  dataRef :: "('i, 'l) MNISTData option"
  stopTrainingRef :: bool
  pauseTrainingRef :: bool
  models :: "nat \<Rightarrow> 'w option"
  nextModel :: nat

text \<open>
  One call of \<open>train\<close> is a task that runs until its next \<^verbatim>\<open>await\<close> and is
  resumed later; between two resumptions the commands of the hook may run. \<open>loc\<close> names
  the \<^verbatim>\<open>await\<close> at which the task is suspended:
  the 100 ms sleep of the pause loop at the head of an epoch (lines 134-136) and at the
  head of a batch (146-148), \<^verbatim>\<open>await activeModel.trainOnBatch\<close> (153),
  \<^verbatim>\<open>await tf.nextFrame()\<close> after every tenth batch (179), the two reads of the
  validation scalars (187, 188) and \<^verbatim>\<open>await tf.nextFrame()\<close> at the end of an
  epoch (215). \<open>Returned\<close>: the call has returned its history; \<open>Rejected\<close>: an
  exception has left the call (lines 218-224 did not run).
\<close>

datatype loc =
  EpochSleep | BatchSleep | AwaitTrain | AwaitBatchFrame
  | AwaitValLoss | AwaitValAcc | AwaitEpochFrame | Returned | Rejected

text \<open>
  The local variables of one call of \<open>train\<close>. The last four fields are ghost
  variables, which the source does not have: the number of calls of
  \<^verbatim>\<open>trainOnBatch\<close> and of \<^verbatim>\<open>evaluate\<close>, the (loss, accuracy) pairs of the
  batches of the current epoch, and those pairs for each completed epoch.
\<close>

record ('i, 'l) task =
  pc :: loc
  activeModel :: nat
  epochs :: nat
  batchSize :: nat
  trainData :: "('i, 'l) MNISTData"
  numBatches :: enat
  history :: TrainingHistory
  completedEpochs :: nat
  epoch :: nat
  batch :: nat
  epochLoss :: real
  epochAcc :: real
  batchCount :: nat
  currentBatch :: "'i list \<times> 'l list"
  valResult :: "real \<times> real"
  trainCalls :: nat
  evalCalls :: nat
  batchLog :: "(real \<times> real) list"
  epochLog :: "(real \<times> real) list list"

subsection \<open>The training loop\<close>

text \<open>Lines 218-224: the code after the epoch loop.\<close>

definition finish :: "('w, 'i, 'l) hook \<Rightarrow> ('i, 'l) task \<Rightarrow> ('w, 'i, 'l) hook \<times> ('i, 'l) task" where
  "finish h t =
     (h\<lparr>trainedEpochs := trainedEpochs h + completedEpochs t, isTraining := False, isPaused := False\<rparr>,
      t\<lparr>pc := Returned\<rparr>)"

definition reject :: "('w, 'i, 'l) hook \<Rightarrow> ('i, 'l) task \<Rightarrow> ('w, 'i, 'l) hook \<times> ('i, 'l) task" where
  "reject h t = (h, t\<lparr>pc := Rejected\<rparr>)"

text \<open>
  Lines 183-186, reached when the batch loop ends or is left by \<^verbatim>\<open>break\<close>:
  \<^verbatim>\<open>if (stopTrainingRef.current) break;\<close> and the call of \<^verbatim>\<open>evaluate\<close>,
  which throws on a disposed model.
\<close>

definition after_batches ::
  "('w, 'i, 'l) network \<Rightarrow> ('w, 'i, 'l) hook \<Rightarrow> ('i, 'l) task \<Rightarrow> ('w, 'i, 'l) hook \<times> ('i, 'l) task" where
  "after_batches net h t =
     (if stopTrainingRef h then finish h t
      else case models h (activeModel t) of
             None \<Rightarrow> reject h t
           | Some w \<Rightarrow>
               (h, t\<lparr>valResult := evaluate net w (testImages (trainData t)) (testLabels (trainData t)),
                     evalCalls := evalCalls t + 1,
                     pc := AwaitValLoss\<rparr>))"

text \<open>Lines 151-153: slice the batch and call \<^verbatim>\<open>trainOnBatch\<close>.\<close>

definition batch_body :: "('w, 'i, 'l) hook \<Rightarrow> ('i, 'l) task \<Rightarrow> ('w, 'i, 'l) hook \<times> ('i, 'l) task" where
  "batch_body h t =
     (case getBatch (trainImages (trainData t)) (trainLabels (trainData t)) (batchSize t) (batch t) of
        Inl err \<Rightarrow> reject h t
      | Inr b \<Rightarrow> (h, t\<lparr>currentBatch := b, trainCalls := trainCalls t + 1, pc := AwaitTrain\<rparr>))"

text \<open>Line 149: \<^verbatim>\<open>if (stopTrainingRef.current) break;\<close> after the pause loop.\<close>

definition after_batch_pause ::
  "('w, 'i, 'l) network \<Rightarrow> ('w, 'i, 'l) hook \<Rightarrow> ('i, 'l) task \<Rightarrow> ('w, 'i, 'l) hook \<times> ('i, 'l) task" where
  "after_batch_pause net h t =
     (if stopTrainingRef h then after_batches net h t else batch_body h t)"

text \<open>
  Lines 146-148:
  \<^verbatim>\<open>while (pauseTrainingRef.current && !stopTrainingRef.current) await sleep(100);\<close>
  The test of the loop, taken on entry and again after every sleep.
\<close>

definition batch_pause ::
  "('w, 'i, 'l) network \<Rightarrow> ('w, 'i, 'l) hook \<Rightarrow> ('i, 'l) task \<Rightarrow> ('w, 'i, 'l) hook \<times> ('i, 'l) task" where
  "batch_pause net h t =
     (if pauseTrainingRef h \<and> \<not> stopTrainingRef h then (h, t\<lparr>pc := BatchSleep\<rparr>)
      else after_batch_pause net h t)"

text \<open>Lines 143-144: the test \<open>batch < numBatches\<close> and the first stop check.\<close>

definition batch_head ::
  "('w, 'i, 'l) network \<Rightarrow> ('w, 'i, 'l) hook \<Rightarrow> ('i, 'l) task \<Rightarrow> ('w, 'i, 'l) hook \<times> ('i, 'l) task" where
  "batch_head net h t =
     (if enat (batch t) < numBatches t
      then (if stopTrainingRef h then after_batches net h t else batch_pause net h t)
      else after_batches net h t)"

text \<open>
  Lines 153-181, from the resumption of \<^verbatim>\<open>await activeModel.trainOnBatch\<close>:
  the result is read (\<^verbatim>\<open>Array.isArray(result) ? result[0] : result\<close> and
  \<^verbatim>\<open>Array.isArray(result) ? result[1] : 0\<close>), accumulated and published; after
  every tenth batch the task awaits the next frame, otherwise it goes on with
  \<open>batch + 1\<close>. Training a disposed model rejects.
\<close>

definition batch_done ::
  "('w, 'i, 'l) network \<Rightarrow> ('w, 'i, 'l) hook \<Rightarrow> ('i, 'l) task \<Rightarrow> ('w, 'i, 'l) hook \<times> ('i, 'l) task" where
  "batch_done net h t =
     (case models h (activeModel t) of
        None \<Rightarrow> reject h t
      | Some w \<Rightarrow>
          let (result, w') = trainOnBatch net w (fst (currentBatch t)) (snd (currentBatch t));
              batchLoss = (case result of Scalar l \<Rightarrow> l | Metrics l a \<Rightarrow> l);
              batchAcc = (case result of Scalar l \<Rightarrow> 0 | Metrics l a \<Rightarrow> a);
              h' = h\<lparr>models := (models h)(activeModel t \<mapsto> w'),
                     trainingProgress :=
                       TrainingProgress (epoch t + 1) (batch t + 1) (Some (numBatches t)) batchLoss batchAcc\<rparr>;
              t' = t\<lparr>epochLoss := epochLoss t + batchLoss,
                     epochAcc := epochAcc t + batchAcc,
                     batchCount := batchCount t + 1,
                     batchLog := batchLog t @ [(batchLoss, batchAcc)]\<rparr>
          in if batch t mod 10 = 0 then (h', t'\<lparr>pc := AwaitBatchFrame\<rparr>)
             else batch_head net h' (t'\<lparr>batch := batch t + 1\<rparr>))"

text \<open>Lines 137-141: the stop check after the pause loop and the reset of the sums.\<close>

definition epoch_body ::
  "('w, 'i, 'l) network \<Rightarrow> ('w, 'i, 'l) hook \<Rightarrow> ('i, 'l) task \<Rightarrow> ('w, 'i, 'l) hook \<times> ('i, 'l) task" where
  "epoch_body net h t =
     (if stopTrainingRef h then finish h t
      else batch_head net h
             (t\<lparr>epochLoss := 0, epochAcc := 0, batchCount := 0, batch := 0, batchLog := []\<rparr>))"

text \<open>Lines 134-136: the pause loop at the head of an epoch.\<close>

definition epoch_pause ::
  "('w, 'i, 'l) network \<Rightarrow> ('w, 'i, 'l) hook \<Rightarrow> ('i, 'l) task \<Rightarrow> ('w, 'i, 'l) hook \<times> ('i, 'l) task" where
  "epoch_pause net h t =
     (if pauseTrainingRef h \<and> \<not> stopTrainingRef h then (h, t\<lparr>pc := EpochSleep\<rparr>)
      else epoch_body net h t)"

text \<open>Lines 130-131: the test \<open>epoch < epochs\<close> and the first stop check.\<close>

definition epoch_head ::
  "('w, 'i, 'l) network \<Rightarrow> ('w, 'i, 'l) hook \<Rightarrow> ('i, 'l) task \<Rightarrow> ('w, 'i, 'l) hook \<times> ('i, 'l) task" where
  "epoch_head net h t =
     (if epoch t < epochs t
      then (if stopTrainingRef h then finish h t else epoch_pause net h t)
      else finish h t)"

text \<open>
  \<^verbatim>\<open>epochLoss / batchCount\<close>: 0 / 0 is NaN. (The divisor is 0 only when no batch
  ran, and then the dividend is 0.)
\<close>

definition js_div :: "real \<Rightarrow> real \<Rightarrow> real option" where
  "js_div a b = (if b = 0 then None else Some (a / b))"

text \<open>
  Lines 188-213, from the resumption of the second read of the validation scalars: the
  means of the epoch, one entry pushed to each of the four lists, the history and the
  last validation accuracy published, \<open>completedEpochs++\<close>.
\<close>

definition epoch_done :: "('w, 'i, 'l) hook \<Rightarrow> ('i, 'l) task \<Rightarrow> ('w, 'i, 'l) hook \<times> ('i, 'l) task" where
  "epoch_done h t =
     (let avgLoss = js_div (epochLoss t) (real (batchCount t));
          avgAcc = js_div (epochAcc t) (real (batchCount t));
          hist = \<lparr>loss = loss (history t) @ [avgLoss],
                  accuracy = accuracy (history t) @ [avgAcc],
                  valLoss = valLoss (history t) @ [Some (fst (valResult t))],
                  valAccuracy = valAccuracy (history t) @ [Some (snd (valResult t))]\<rparr>
      in (h\<lparr>trainingHistory := hist, lastValAccuracy := Some (snd (valResult t))\<rparr>,
          t\<lparr>history := hist,
            completedEpochs := completedEpochs t + 1,
            epochLog := epochLog t @ [batchLog t],
            pc := AwaitEpochFrame\<rparr>))"

text \<open>The task is resumed at the \<^verbatim>\<open>await\<close> where it is suspended.\<close>

definition resume ::
  "('w, 'i, 'l) network \<Rightarrow> ('w, 'i, 'l) hook \<Rightarrow> ('i, 'l) task \<Rightarrow> ('w, 'i, 'l) hook \<times> ('i, 'l) task" where
  "resume net h t =
     (case pc t of
        EpochSleep \<Rightarrow> epoch_pause net h t
      | BatchSleep \<Rightarrow> batch_pause net h t
      | AwaitTrain \<Rightarrow> batch_done net h t
      | AwaitBatchFrame \<Rightarrow> batch_head net h (t\<lparr>batch := batch t + 1\<rparr>)
      | AwaitValLoss \<Rightarrow> (h, t\<lparr>pc := AwaitValAcc\<rparr>)
      | AwaitValAcc \<Rightarrow> epoch_done h t
      | AwaitEpochFrame \<Rightarrow> epoch_head net h (t\<lparr>epoch := epoch t + 1\<rparr>)
      | Returned \<Rightarrow> (h, t)
      | Rejected \<Rightarrow> (h, t))"

text \<open>
  Lines 91-130: the call \<open>train({epochs, batchSize, modelOverride})\<close> up to its first
  \<^verbatim>\<open>await\<close>. Without a model or without data it logs an error and returns at
  once (\<open>None\<close>). The learning rate only reaches the external \<^verbatim>\<open>compileModel\<close>.
  The optional callbacks \<^verbatim>\<open>onBatchEnd\<close> and \<^verbatim>\<open>onEpochEnd\<close> are the caller's
  code (the application passes none) and are left out.
\<close>

definition train ::
  "('w, 'i, 'l) network \<Rightarrow> nat \<Rightarrow> nat \<Rightarrow> nat option \<Rightarrow> ('w, 'i, 'l) hook
     \<Rightarrow> (('w, 'i, 'l) hook \<times> ('i, 'l) task) option" where
  "train net epochsArg batchSizeArg modelOverride h =
     (case (case modelOverride of Some m \<Rightarrow> Some m | None \<Rightarrow> model h) of
        None \<Rightarrow> None
      | Some m \<Rightarrow>
          (case dataRef h of
             None \<Rightarrow> None
           | Some d \<Rightarrow>
               Some (epoch_head net
                 (h\<lparr>isTraining := True, isPaused := False,
                    stopTrainingRef := False, pauseTrainingRef := False\<rparr>)
                 \<lparr>pc = EpochSleep, activeModel = m, epochs = epochsArg, batchSize = batchSizeArg,
                  trainData = d, numBatches = num_batches (numTrain d) batchSizeArg,
                  history = emptyHistory, completedEpochs = 0, epoch = 0, batch = 0,
                  epochLoss = 0, epochAcc = 0, batchCount = 0, currentBatch = ([], []),
                  valResult = (0, 0), trainCalls = 0, evalCalls = 0, batchLog = [],
                  epochLog = []\<rparr>)))"

subsection \<open>The commands of the hook\<close>

definition stopTraining :: "('w, 'i, 'l) hook \<Rightarrow> ('w, 'i, 'l) hook" where
  "stopTraining h = h\<lparr>stopTrainingRef := True, pauseTrainingRef := False\<rparr>"

definition pauseTraining :: "('w, 'i, 'l) hook \<Rightarrow> ('w, 'i, 'l) hook" where
  "pauseTraining h =
     h\<lparr>pauseTrainingRef := \<not> pauseTrainingRef h, isPaused := \<not> pauseTrainingRef h\<rparr>"

text \<open>
  \<^verbatim>\<open>setModel(newModel)\<close> together with the effect of lines 347-353, whose cleanup
  disposes the previous model when the model changes.
\<close>

definition setModel :: "nat \<Rightarrow> ('w, 'i, 'l) hook \<Rightarrow> ('w, 'i, 'l) hook" where
  "setModel m h =
     h\<lparr>model := Some m,
       models := (case model h of
                    None \<Rightarrow> models h
                  | Some old \<Rightarrow> if old = m then models h else (models h)(old := None))\<rparr>"

text \<open>
  \<open>initModel\<close> (lines 52-63); \<open>w0\<close> are the weights \<^verbatim>\<open>createModel()\<close> gives the
  new object, which gets the next free handle.
\<close>

definition initModel :: "'w \<Rightarrow> ('w, 'i, 'l) hook \<Rightarrow> ('w, 'i, 'l) hook" where
  "initModel w0 h =
     (setModel (nextModel h) (h\<lparr>models := (models h)(nextModel h \<mapsto> w0), nextModel := nextModel h + 1\<rparr>))
       \<lparr>trainingHistory := emptyHistory, modelSource := Some SourceNew, modelName := None,
        trainedEpochs := 0, lastValAccuracy := None\<rparr>"

text \<open>
  \<open>loadModel\<close> (lines 256-275) and \<open>loadPretrained\<close> (lines 278-297). The outcome of
  the external loader is a parameter: it throws (\<open>Inl\<close>), and the command rethrows
  with the state untouched, or it yields the weights of a new model object. \<open>name\<close>
  is the name of the JSON file without its extension.
\<close>

datatype load_error = LoadFailed

definition installLoaded ::
  "ModelSource \<Rightarrow> string \<Rightarrow> load_error + 'w \<Rightarrow> ('w, 'i, 'l) hook \<Rightarrow> load_error + ('w, 'i, 'l) hook" where
  "installLoaded src name loaded h =
     (case loaded of
        Inl err \<Rightarrow> Inl err
      | Inr w0 \<Rightarrow>
          Inr ((setModel (nextModel h)
                  (h\<lparr>models := (models h)(nextModel h \<mapsto> w0), nextModel := nextModel h + 1\<rparr>))
                \<lparr>modelSource := Some src, modelName := Some name, trainedEpochs := 0,
                 lastValAccuracy := None, trainingHistory := emptyHistory\<rparr>))"

definition loadModel :: "string \<Rightarrow> load_error + 'w \<Rightarrow> ('w, 'i, 'l) hook \<Rightarrow> load_error + ('w, 'i, 'l) hook" where
  "loadModel name loaded h = installLoaded SourceLoaded name loaded h"

definition loadPretrained :: "load_error + 'w \<Rightarrow> ('w, 'i, 'l) hook \<Rightarrow> load_error + ('w, 'i, 'l) hook" where
  "loadPretrained loaded h = installLoaded SourcePretrained ''Pre-trained MNIST CNN'' loaded h"

subsection \<open>Runs\<close>

text \<open>
  What can happen while a task is suspended: the task is resumed, or a command of the
  hook runs. A run is a list of such events, applied from left to right. One call of
  \<open>train\<close> is followed at a time; a later call starts from the hook the earlier one
  has left.
\<close>

datatype 'w event =
  Resume | Stop | Pause | InitModel 'w | LoadModel string "load_error + 'w" | LoadPretrained "load_error + 'w"

fun apply_event ::
  "('w, 'i, 'l) network \<Rightarrow> 'w event \<Rightarrow> ('w, 'i, 'l) hook \<times> ('i, 'l) task
     \<Rightarrow> ('w, 'i, 'l) hook \<times> ('i, 'l) task" where
  "apply_event net Resume (h, t) = resume net h t"
| "apply_event net Stop (h, t) = (stopTraining h, t)"
| "apply_event net Pause (h, t) = (pauseTraining h, t)"
| "apply_event net (InitModel w0) (h, t) = (initModel w0 h, t)"
| "apply_event net (LoadModel name loaded) (h, t) =
     (case loadModel name loaded h of Inl err \<Rightarrow> (h, t) | Inr h' \<Rightarrow> (h', t))"
| "apply_event net (LoadPretrained loaded) (h, t) =
     (case loadPretrained loaded h of Inl err \<Rightarrow> (h, t) | Inr h' \<Rightarrow> (h', t))"

fun exec ::
  "('w, 'i, 'l) network \<Rightarrow> 'w event list \<Rightarrow> ('w, 'i, 'l) hook \<times> ('i, 'l) task
     \<Rightarrow> ('w, 'i, 'l) hook \<times> ('i, 'l) task" where
  "exec net [] s = s"
| "exec net (ev # evs) s = exec net evs (apply_event net ev s)"

text \<open>The events that leave the active model alone.\<close>

fun is_ctrl :: "'w event \<Rightarrow> bool" where
  "is_ctrl Resume = True"
| "is_ctrl Stop = True"
| "is_ctrl Pause = True"
| "is_ctrl ev = False"

subsection \<open>Invariants of a task\<close>

definition hist_len :: "TrainingHistory \<Rightarrow> nat \<Rightarrow> bool" where
  "hist_len hs n \<longleftrightarrow>
     length (loss hs) = n \<and> length (accuracy hs) = n
     \<and> length (valLoss hs) = n \<and> length (valAccuracy hs) = n"

text \<open>
  What holds of the history at every suspension: one entry and one logged epoch per
  completed epoch, and each entry of a completed epoch is the quotient of the sum of
  the logged batch values by their number, which is the number of batches.
\<close>

definition core :: "('i, 'l) task \<Rightarrow> bool" where
  "core t \<longleftrightarrow>
     hist_len (history t) (completedEpochs t)
     \<and> length (epochLog t) = completedEpochs t
     \<and> completedEpochs t \<le> epochs t
     \<and> (\<forall>i < completedEpochs t.
          enat (length (epochLog t ! i)) = numBatches t
          \<and> loss (history t) ! i =
              js_div (sum_list (map fst (epochLog t ! i))) (real (length (epochLog t ! i)))
          \<and> accuracy (history t) ! i =
              js_div (sum_list (map snd (epochLog t ! i))) (real (length (epochLog t ! i))))"

definition in_epoch :: "('i, 'l) task \<Rightarrow> bool" where
  "in_epoch t \<longleftrightarrow> core t \<and> completedEpochs t = epoch t \<and> epoch t < epochs t"

definition in_batches :: "('i, 'l) task \<Rightarrow> bool" where
  "in_batches t \<longleftrightarrow>
     in_epoch t
     \<and> batchCount t = length (batchLog t)
     \<and> epochLoss t = sum_list (map fst (batchLog t))
     \<and> epochAcc t = sum_list (map snd (batchLog t))"

definition task_inv :: "('i, 'l) task \<Rightarrow> bool" where
  "task_inv t \<longleftrightarrow>
     (case pc t of
        EpochSleep \<Rightarrow> in_epoch t \<and> evalCalls t = completedEpochs t
      | BatchSleep \<Rightarrow>
          in_batches t \<and> batchCount t = batch t \<and> enat (batch t) < numBatches t
          \<and> evalCalls t = completedEpochs t
      | AwaitTrain \<Rightarrow>
          in_batches t \<and> batchCount t = batch t \<and> enat (batch t) < numBatches t
          \<and> evalCalls t = completedEpochs t
      | AwaitBatchFrame \<Rightarrow>
          in_batches t \<and> batchCount t = batch t + 1 \<and> enat (batch t) < numBatches t
          \<and> evalCalls t = completedEpochs t
      | AwaitValLoss \<Rightarrow>
          in_batches t \<and> enat (batchCount t) = numBatches t \<and> evalCalls t = completedEpochs t + 1
      | AwaitValAcc \<Rightarrow>
          in_batches t \<and> enat (batchCount t) = numBatches t \<and> evalCalls t = completedEpochs t + 1
      | AwaitEpochFrame \<Rightarrow>
          core t \<and> completedEpochs t = epoch t + 1 \<and> epoch t < epochs t
          \<and> evalCalls t = completedEpochs t
      | Returned \<Rightarrow> core t \<and> evalCalls t = completedEpochs t
      | Rejected \<Rightarrow> core t)"

text \<open>The task is inside an epoch and has not yet passed the stop check of line 183.\<close>

definition in_batch_phase :: "('i, 'l) task \<Rightarrow> bool" where
  "in_batch_phase t \<longleftrightarrow> pc t \<in> {EpochSleep, BatchSleep, AwaitTrain, AwaitBatchFrame}"

text \<open>The fields of a task that are set once, when the call starts.\<close>

definition same_static :: "('i, 'l) task \<Rightarrow> ('i, 'l) task \<Rightarrow> bool" where
  "same_static t t' \<longleftrightarrow> numBatches t' = numBatches t \<and> epochs t' = epochs t \<and> batchSize t' = batchSize t
      \<and> trainData t' = trainData t \<and> activeModel t' = activeModel t"

subsection \<open>Invariants of a run under the control commands\<close>

text \<open>
  \<open>T0\<close> and \<open>H0\<close> are the counter of trained epochs and the published history when
  the call started. \<open>mid\<close> holds of a task that has not returned: its model is
  usable, the counter is untouched, and the published history is the one from before
  the call until the first epoch completes and the history of this call afterwards.
  \<open>hook_ok\<close> adds what holds once the call has returned.
\<close>

definition mid :: "nat \<Rightarrow> TrainingHistory \<Rightarrow> ('w, 'i, 'l) hook \<Rightarrow> ('i, 'l) task \<Rightarrow> bool" where
  "mid T0 H0 h t \<longleftrightarrow>
     models h (activeModel t) \<noteq> None \<and> trainedEpochs h = T0
     \<and> (completedEpochs t = 0 \<longrightarrow> trainingHistory h = H0)
     \<and> (0 < completedEpochs t \<longrightarrow> trainingHistory h = history t)"

definition hook_ok :: "nat \<Rightarrow> TrainingHistory \<Rightarrow> ('w, 'i, 'l) hook \<times> ('i, 'l) task \<Rightarrow> bool" where
  "hook_ok T0 H0 s \<longleftrightarrow>
     models (fst s) (activeModel (snd s)) \<noteq> None
     \<and> (pc (snd s) = Returned \<longrightarrow>
          trainedEpochs (fst s) = T0 + completedEpochs (snd s)
          \<and> (\<not> stopTrainingRef (fst s) \<longrightarrow> completedEpochs (snd s) = epochs (snd s)))
     \<and> (pc (snd s) \<noteq> Returned \<longrightarrow> trainedEpochs (fst s) = T0)
     \<and> (completedEpochs (snd s) = 0 \<longrightarrow> trainingHistory (fst s) = H0)
     \<and> (0 < completedEpochs (snd s) \<longrightarrow> trainingHistory (fst s) = history (snd s))"

text \<open>
  An upper bound on the number of resumptions a task needs to return once stop has been
  requested during the batches of an epoch, and the invariant of such a task.
\<close>

fun dist :: "loc \<Rightarrow> nat" where
  "dist Returned = 0"
| "dist AwaitTrain = 2"
| "dist l = 1"

definition stopping :: "nat \<Rightarrow> nat \<Rightarrow> TrainingHistory \<Rightarrow> ('w, 'i, 'l) hook \<times> ('i, 'l) task \<Rightarrow> bool" where
  "stopping e T0 H0 s \<longleftrightarrow>
     stopTrainingRef (fst s) \<and> task_inv (snd s) \<and> hook_ok T0 H0 s
     \<and> completedEpochs (snd s) = e \<and> evalCalls (snd s) = e
     \<and> (in_batch_phase (snd s) \<or> pc (snd s) = Returned)"

section \<open>Concrete inputs\<close>

definition mk_layer :: "string \<Rightarrow> nat \<Rightarrow> layer" where
  "mk_layer n w = \<lparr>className = n, numWeights = w\<rparr>"

definition demo_layers :: "layer list" where
  "demo_layers = [mk_layer ''Conv2D'' 2, mk_layer ''MaxPooling2D'' 0, mk_layer ''Conv2D'' 2,
                  mk_layer ''Flatten'' 0, mk_layer ''Dense'' 2]"

definition demo_activation :: "real list list list" where
  "demo_activation = [[[1, -3], [2, 2]], [[0, 0], [-1, 3]]]"

definition flat_activation :: "real list list list" where
  "flat_activation = [[[1, 1], [3, -1]], [[2, 0], [4, -2]]]"

text \<open>
  A network whose every batch reports the number of its rows as loss and 1/2 as
  accuracy and whose validation reports 1/4 and 3/4 (its weights count the updates),
  a dataset of three rows, a hook that holds both, and a run of two epochs with
  batches of two rows started from it.
\<close>

definition demo_net :: "(nat, nat, nat) network" where
  "demo_net = \<lparr>trainOnBatch = (\<lambda>w imgs lbls. (Metrics (real (length imgs)) (1 / 2), w + 1)),
               evaluate = (\<lambda>w imgs lbls. (1 / 4, 3 / 4))\<rparr>"

definition demo_data :: "(nat, nat) MNISTData" where
  "demo_data = \<lparr>trainImages = [0, 1, 2], trainLabels = [7, 8, 9], testImages = [3], testLabels = [6],
                numTrain = 3, numTest = 1\<rparr>"

definition demo_hook :: "(nat, nat, nat) hook" where
  "demo_hook = \<lparr>model = Some 0, isTraining = False, isPaused = False,
                trainingProgress = TrainingProgress 0 0 None 0 0,
                trainingHistory = emptyHistory, modelSource = Some SourceNew, modelName = None,
                trainedEpochs = 0, lastValAccuracy = None, dataRef = Some demo_data,
                stopTrainingRef = False, pauseTrainingRef = False,
                models = (\<lambda>m. if m = 0 then Some 0 else None), nextModel = 1\<rparr>"

definition demo_start :: "(nat, nat, nat) hook \<times> (nat, nat) task" where
  "demo_start = the (train demo_net 2 2 None demo_hook)"

text \<open>
  Two runs of one epoch each, the second started on the same model when the first has
  returned; and the run \<open>demo_start\<close> after a pause request, with a batch in flight
  and, two resumptions later, asleep in the pause loop.
\<close>

definition demo_first_run :: "(nat, nat, nat) hook \<times> (nat, nat) task" where
  "demo_first_run = exec demo_net (replicate 6 Resume) (the (train demo_net 1 2 None demo_hook))"

definition demo_second_run :: "(nat, nat, nat) hook \<times> (nat, nat) task" where
  "demo_second_run =
     exec demo_net (replicate 6 Resume) (the (train demo_net 1 2 None (fst demo_first_run)))"

definition demo_paused :: "(nat, nat, nat) hook \<times> (nat, nat) task" where
  "demo_paused = exec demo_net [Pause] demo_start"

definition demo_asleep :: "(nat, nat, nat) hook \<times> (nat, nat) task" where
  "demo_asleep = exec demo_net [Pause, Resume, Resume] demo_start"

section \<open>Properties of batch slicing\<close>

lemma ceiling_div_nat:
  assumes "0 < b"
  shows "nat \<lceil>real n / real b\<rceil> = (n + b - 1) div b"
proof -
  define k where "k = (n + b - 1) div b"
  have lo: "k * b \<le> n + b - 1" unfolding k_def by simp
  have hi: "n + b - 1 < k * b + b"
    unfolding k_def using assms
    by (metis add.commute dividend_less_div_times mult.commute)
  have le: "n \<le> k * b" using hi assms by linarith
  have "real n \<le> real (k * b)" using le of_nat_le_iff by blast
  then have a: "real n / real b \<le> real_of_int (int k)"
    using assms by (simp add: divide_le_eq)
  have "k * b < n + b" using lo assms by linarith
  then have "real (k * b) < real (n + b)" using of_nat_less_iff by blast
  then have "(real k - 1) * real b < real n" by (simp add: algebra_simps)
  then have b: "real_of_int (int k) - 1 < real n / real b"
    using assms by (simp add: less_divide_eq)
  have "\<lceil>real n / real b\<rceil> = int k"
    using a b by (intro ceiling_unique) auto
  then show ?thesis by (simp add: k_def)
qed

lemma start_lt: "0 < n \<Longrightarrow> startIndex n bs i < n"
  by (simp add: startIndex_def)

lemma end_minus_start:
  "0 < n \<Longrightarrow> endIndex n bs i - startIndex n bs i = min bs (n - startIndex n bs i)"
  using start_lt [of n bs i] by (auto simp add: endIndex_def min_def)

lemma getBatch_slices:
  assumes "0 < length images" and "length images \<le> length labels"
  shows "getBatch images labels bs i =
           Inr (take (min bs (length images - startIndex (length images) bs i))
                  (drop (startIndex (length images) bs i) images),
                take (min bs (length images - startIndex (length images) bs i))
                  (drop (startIndex (length images) bs i) labels))"
proof -
  let ?n = "length images"
  let ?s = "startIndex ?n bs i"
  have s: "?s < ?n" using assms(1) by (rule start_lt)
  have d: "endIndex ?n bs i - ?s = min bs (?n - ?s)" using assms(1) by (rule end_minus_start)
  have "?s + min bs (?n - ?s) \<le> ?n" using s by simp
  moreover have "?s + min bs (?n - ?s) \<le> length labels" using s assms(2) by simp
  ultimately show ?thesis
    using assms(1) d by (simp add: getBatch_def tf_slice_def Let_def)
qed

lemma within_epoch_no_wrap:
  assumes "0 < (bs::nat)" and "i < (n + bs - 1) div bs"
  shows "i * bs < n"
proof (rule ccontr)
  assume "\<not> i * bs < n"
  then have "n \<le> i * bs" by (rule leI)
  moreover have "(i + 1) * bs = i * bs + bs" by simp
  ultimately have "n + bs - 1 < (i + 1) * bs" using assms(1) by linarith
  then have "(n + bs - 1) div bs < i + 1"
    using assms(1) by (simp add: div_less_iff_less_mult)
  with assms(2) show False by simp
qed

text \<open>
  C3: for a dataset of \<open>numTrain\<close> examples and \<open>batchSize > 0\<close> an epoch has
  \<open>ceil (numTrain / batchSize)\<close> batches; the batch at index \<open>i\<close> is the contiguous
  run of rows that starts at \<open>(i * batchSize) mod numTrain\<close> and is clipped at the end
  of the data, so it holds \<open>min batchSize (numTrain - startIndex)\<close> rows; within one
  epoch the start is \<open>i * batchSize\<close> itself. The instance 500 / 32 (16 batches, the
  last of 20 rows) is checked after the theorem.
\<close>

theorem batch_count_and_layout:
  assumes "0 < bsize"
    and "length images = ntrain" and "length labels = ntrain"
  shows "num_batches ntrain bsize = enat (nat \<lceil>real ntrain / real bsize\<rceil>)
       \<and> num_batches ntrain bsize = enat ((ntrain + bsize - 1) div bsize)
       \<and> (0 < ntrain \<longrightarrow>
            (let s = (i * bsize) mod ntrain; m = min bsize (ntrain - s)
             in getBatch images labels bsize i = Inr (take m (drop s images), take m (drop s labels))
              \<and> length (take m (drop s images)) = m
              \<and> length (take m (drop s labels)) = m))
       \<and> (enat i < num_batches ntrain bsize \<longrightarrow> (i * bsize) mod ntrain = i * bsize)"
proof -
  have nb: "num_batches ntrain bsize = enat ((ntrain + bsize - 1) div bsize)"
    using assms(1) by (simp add: num_batches_def ceiling_div_nat)
  have nc: "num_batches ntrain bsize = enat (nat \<lceil>real ntrain / real bsize\<rceil>)"
    using assms(1) by (simp add: num_batches_def)
  have gb: "0 < ntrain \<longrightarrow>
            (let s = (i * bsize) mod ntrain; m = min bsize (ntrain - s)
             in getBatch images labels bsize i = Inr (take m (drop s images), take m (drop s labels))
              \<and> length (take m (drop s images)) = m
              \<and> length (take m (drop s labels)) = m)"
  proof
    assume pos: "0 < ntrain"
    have "getBatch images labels bsize i =
           Inr (take (min bsize (length images - startIndex (length images) bsize i))
                  (drop (startIndex (length images) bsize i) images),
                take (min bsize (length images - startIndex (length images) bsize i))
                  (drop (startIndex (length images) bsize i) labels))"
      using pos assms(2,3) by (intro getBatch_slices) simp_all
    then show "let s = (i * bsize) mod ntrain; m = min bsize (ntrain - s)
             in getBatch images labels bsize i = Inr (take m (drop s images), take m (drop s labels))
              \<and> length (take m (drop s images)) = m
              \<and> length (take m (drop s labels)) = m"
      using assms(2,3) by (simp add: Let_def startIndex_def)
  qed
  have nw: "enat i < num_batches ntrain bsize \<longrightarrow> (i * bsize) mod ntrain = i * bsize"
  proof
    assume "enat i < num_batches ntrain bsize"
    then have "i < (ntrain + bsize - 1) div bsize" by (simp add: nb)
    then have "i * bsize < ntrain" using assms(1) by (intro within_epoch_no_wrap)
    then show "(i * bsize) mod ntrain = i * bsize" by simp
  qed
  from nc nb gb nw show ?thesis by blast
qed

theorem batch_count_and_layout_witness:
  "num_batches 500 32 = enat 16
   \<and> getBatch [0..<500] [0..<500] 32 15 = Inr ([480..<500], [480..<500])
   \<and> length [480..<500] = 20"
proof -
  have h: "(0::nat) < 32" "length [0..<500] = 500" by simp_all
  have m: "(15 * 32) mod 500 = (480::nat)" "min 32 (500 - 480) = (20::nat)" by simp_all
  have t: "take 20 (drop 480 [0..<500]) = [480..<500]"
    by (simp add: take_upt drop_upt del: upt_Suc)
  show ?thesis
    using batch_count_and_layout [OF h(1) h(2) h(2), of 15]
    by (simp add: Let_def m t del: upt_Suc)
qed

text \<open>
  C10: for every batch index, every \<open>bsize \<ge> 1\<close> and every dataset with at least
  one training row, the slice indices are in bounds
  (\<open>startIndex < numExamples\<close>, \<open>startIndex < endIndex \<le> numExamples\<close>); a returned
  batch is never empty, holds at most \<open>bsize\<close> rows, and its image and label slices
  have the same number of rows; and a batch is returned whenever the label tensor has
  a row for every image row.
\<close>

theorem getBatch_in_bounds:
  assumes "1 \<le> bsize" and "1 \<le> length images"
  shows "startIndex (length images) bsize batchIndex < length images
       \<and> startIndex (length images) bsize batchIndex < endIndex (length images) bsize batchIndex
       \<and> endIndex (length images) bsize batchIndex \<le> length images
       \<and> (\<forall>imgs lbls. getBatch images labels bsize batchIndex = Inr (imgs, lbls) \<longrightarrow>
             imgs \<noteq> [] \<and> length imgs \<le> bsize \<and> length lbls = length imgs
             \<and> length imgs = endIndex (length images) bsize batchIndex
                             - startIndex (length images) bsize batchIndex)
       \<and> (length images \<le> length labels \<longrightarrow>
             (\<exists>imgs lbls. getBatch images labels bsize batchIndex = Inr (imgs, lbls)))"
proof -
  let ?n = "length images"
  let ?s = "startIndex ?n bsize batchIndex"
  let ?e = "endIndex ?n bsize batchIndex"
  have pos: "0 < ?n" using assms(2) by linarith
  have s: "?s < ?n" using pos by (rule start_lt)
  have se: "?s < ?e" using s assms(1) by (simp add: endIndex_def)
  have e: "?e \<le> ?n" by (simp add: endIndex_def)
  have d: "?e - ?s \<le> bsize" by (simp add: endIndex_def)
  have ret: "\<forall>imgs lbls. getBatch images labels bsize batchIndex = Inr (imgs, lbls) \<longrightarrow>
             imgs \<noteq> [] \<and> length imgs \<le> bsize \<and> length lbls = length imgs
             \<and> length imgs = ?e - ?s"
  proof (intro allI impI)
    fix imgs lbls
    assume g: "getBatch images labels bsize batchIndex = Inr (imgs, lbls)"
    from g pos have i: "imgs = take (?e - ?s) (drop ?s images)"
      and l: "lbls = take (?e - ?s) (drop ?s labels)"
      and b: "?s + (?e - ?s) \<le> length labels"
      by (auto simp: getBatch_def tf_slice_def Let_def split: if_splits sum.splits)
    have li: "length imgs = ?e - ?s" using i e se by simp
    have ll: "length lbls = ?e - ?s" using l b by simp
    from li ll se d show "imgs \<noteq> [] \<and> length imgs \<le> bsize \<and> length lbls = length imgs
             \<and> length imgs = ?e - ?s"
      by auto
  qed
  have ex: "length images \<le> length labels \<longrightarrow>
             (\<exists>imgs lbls. getBatch images labels bsize batchIndex = Inr (imgs, lbls))"
    using getBatch_slices [OF pos] by blast
  from s se e ret ex show ?thesis by blast
qed

theorem getBatch_in_bounds_witness:
  "startIndex (length [10, 11, 12 :: nat]) 2 4 = 2
   \<and> endIndex (length [10, 11, 12 :: nat]) 2 4 = 3
   \<and> getBatch [10, 11, 12 :: nat] [''a'', ''b'', ''c''] 2 4 = Inr ([12], [''c''])"
proof -
  have h: "(1::nat) \<le> 2" "1 \<le> length [10, 11, 12 :: nat]" by simp_all
  have g: "getBatch [10, 11, 12 :: nat] [''a'', ''b'', ''c''] 2 4 = Inr ([12], [''c''])"
    by (simp add: getBatch_def tf_slice_def startIndex_def endIndex_def Let_def)
  show ?thesis
    using getBatch_in_bounds [OF h, of 4 "[''a'', ''b'', ''c'']"] g
    by (simp add: startIndex_def endIndex_def)
qed

section \<open>Properties of the class activation map\<close>

lemma foldl_add_nth:
  "n \<le> length xs \<Longrightarrow> foldl (\<lambda>acc f. acc + xs ! f) (a::real) [0..<n] = a + sum_list (take n xs)"
proof (induction n)
  case 0
  then show ?case by simp
next
  case (Suc n)
  then have "take (Suc n) xs = take n xs @ [xs ! n]"
    by (simp add: take_Suc_conv_app_nth)
  with Suc show ?case by simp
qed

lemma weightedSum_sum:
  "numFilters = length (d ! y ! x) \<Longrightarrow> weightedSum d numFilters y x = sum_list (d ! y ! x)"
  by (simp add: weightedSum_def foldl_add_nth)

lemma lastConvLayer_Some:
  "lastConvLayer ls n = Some i \<Longrightarrow>
     i < n \<and> className (ls ! i) = ''Conv2D'' \<and> (\<forall>j. i < j \<and> j < n \<longrightarrow> className (ls ! j) \<noteq> ''Conv2D'')"
proof (induction n)
  case 0
  then show ?case by simp
next
  case (Suc n)
  show ?case
  proof (cases "className (ls ! n) = ''Conv2D''")
    case True
    with Suc.prems have "i = n" by simp
    with True show ?thesis by auto
  next
    case False
    with Suc.prems have "lastConvLayer ls n = Some i" by simp
    from Suc.IH [OF this] False show ?thesis
      by (auto simp: less_Suc_eq)
  qed
qed

lemma shaped_cell:
  "shaped H W F d \<Longrightarrow> y < H \<Longrightarrow> x < W \<Longrightarrow> length (d ! y) = W \<and> length (d ! y ! x) = F"
  by (auto simp: shaped_def list_all_length)

lemma importance_map_nth:
  "y < H \<Longrightarrow> x < W \<Longrightarrow> importance_map d H W F ! y ! x = max 0 (weightedSum d F y x)"
  by (simp add: importance_map_def)

lemma computeCAM_Inr:
  assumes "computeCAM layers predictLayer = Inr r"
  shows "lastConvLayer layers (length layers) = Some (convIndex r)
       \<and> predictLayer (convIndex r) \<noteq> [] \<and> predictLayer (convIndex r) ! 0 \<noteq> []
       \<and> importance r = importance_map (predictLayer (convIndex r)) (length (predictLayer (convIndex r)))
            (length (predictLayer (convIndex r) ! 0)) (length (predictLayer (convIndex r) ! 0 ! 0))
       \<and> heatmap r = normalize_cam (importance r)"
  using assms
  by (auto simp: computeCAM_def Let_def split: option.splits if_splits)


lemma concat_normalize:
  "concat (normalize_cam cam) = map (\<lambda>v. (v - minVal cam) / cam_range cam) (concat cam)"
  by (simp add: normalize_cam_def map_concat)

lemma importance_map_nonempty:
  "0 < H \<Longrightarrow> 0 < W \<Longrightarrow> concat (importance_map d H W F) \<noteq> []"
  by (auto simp: importance_map_def upt_conv_Cons)

lemma normalize_nondegenerate:
  assumes ne: "concat cam \<noteq> []" and gt: "minVal cam < maxVal cam"
  shows "(\<forall>v\<in>set (concat (normalize_cam cam)). 0 \<le> v \<and> v \<le> 1)
       \<and> 0 \<in> set (concat (normalize_cam cam)) \<and> 1 \<in> set (concat (normalize_cam cam))"
proof -
  let ?S = "set (concat cam)"
  have fin: "finite ?S" and nonempty: "?S \<noteq> {}" using ne by simp_all
  have rg: "cam_range cam = maxVal cam - minVal cam" and pos: "0 < cam_range cam"
    using gt by (simp_all add: cam_range_def)
  have mx: "maxVal cam \<in> ?S" unfolding maxVal_def using fin nonempty by (rule Max_in)
  have mn: "minVal cam \<in> ?S" unfolding minVal_def using fin nonempty by (rule Min_in)
  have bounds: "\<forall>v\<in>?S. minVal cam \<le> v \<and> v \<le> maxVal cam"
    unfolding maxVal_def minVal_def using fin by simp
  have img: "set (concat (normalize_cam cam)) = (\<lambda>v. (v - minVal cam) / cam_range cam) ` ?S"
    by (simp add: concat_normalize)
  have a: "\<forall>v\<in>set (concat (normalize_cam cam)). 0 \<le> v \<and> v \<le> 1"
  proof
    fix v assume "v \<in> set (concat (normalize_cam cam))"
    then obtain u where u: "u \<in> ?S" and v: "v = (u - minVal cam) / cam_range cam"
      unfolding img by blast
    from bounds u have "minVal cam \<le> u \<and> u \<le> maxVal cam" by blast
    then have "0 \<le> u - minVal cam" "u - minVal cam \<le> cam_range cam"
      unfolding rg by simp_all
    with pos show "0 \<le> v \<and> v \<le> 1" unfolding v by simp
  qed
  have "(minVal cam - minVal cam) / cam_range cam = 0" by simp
  then have z: "0 \<in> set (concat (normalize_cam cam))"
    unfolding img using mn by (intro image_eqI [where x = "minVal cam"]) simp_all
  have "(maxVal cam - minVal cam) / cam_range cam = 1" using pos rg by simp
  then have o: "1 \<in> set (concat (normalize_cam cam))"
    unfolding img using mx by (intro image_eqI [where x = "maxVal cam"]) simp_all
  from a z o show ?thesis by blast
qed

lemma normalize_degenerate:
  assumes ne: "concat cam \<noteq> []" and eq: "\<forall>v\<in>set (concat cam). \<forall>w\<in>set (concat cam). v = w"
  shows "cam_range cam = 1 \<and> (\<forall>v\<in>set (concat (normalize_cam cam)). v = 0)"
proof -
  let ?S = "set (concat cam)"
  have fin: "finite ?S" and nonempty: "?S \<noteq> {}" using ne by simp_all
  have mx: "maxVal cam \<in> ?S" unfolding maxVal_def using fin nonempty by (rule Max_in)
  have mn: "minVal cam \<in> ?S" unfolding minVal_def using fin nonempty by (rule Min_in)
  have same: "maxVal cam = minVal cam" using eq mx mn by blast
  then have rg: "cam_range cam = 1" by (simp add: cam_range_def)
  have "\<forall>v\<in>?S. v = minVal cam" using eq mn by blast
  then have "\<forall>v\<in>set (concat (normalize_cam cam)). v = 0"
    by (auto simp: concat_normalize)
  with rg show ?thesis by blast
qed

text \<open>
  C4: when \<open>computeCAM\<close> produces a map, the heatmap is the min-max normalisation of
  the importance scores. If the scores are not all equal (maximum above minimum) every
  heatmap value lies in [0, 1], some value is exactly 0 and some is exactly 1. If all
  scores are equal the denominator is 1 and every heatmap value is exactly 0.
\<close>

theorem heatmap_min_max:
  assumes "computeCAM layers predictLayer = Inr r"
  shows "heatmap r = normalize_cam (importance r)
       \<and> concat (importance r) \<noteq> []
       \<and> (minVal (importance r) < maxVal (importance r) \<longrightarrow>
            (\<forall>v\<in>set (concat (heatmap r)). 0 \<le> v \<and> v \<le> 1)
            \<and> 0 \<in> set (concat (heatmap r)) \<and> 1 \<in> set (concat (heatmap r)))
       \<and> ((\<forall>v\<in>set (concat (importance r)). \<forall>w\<in>set (concat (importance r)). v = w) \<longrightarrow>
            cam_range (importance r) = 1 \<and> (\<forall>v\<in>set (concat (heatmap r)). v = 0))"
proof -
  from computeCAM_Inr [OF assms]
  have hm: "heatmap r = normalize_cam (importance r)"
    and d: "predictLayer (convIndex r) \<noteq> []" "predictLayer (convIndex r) ! 0 \<noteq> []"
    and im: "importance r = importance_map (predictLayer (convIndex r)) (length (predictLayer (convIndex r)))
            (length (predictLayer (convIndex r) ! 0)) (length (predictLayer (convIndex r) ! 0 ! 0))"
    by simp_all
  have ne: "concat (importance r) \<noteq> []"
    unfolding im using d by (intro importance_map_nonempty) simp_all
  show ?thesis
    unfolding hm using ne normalize_nondegenerate [OF ne] normalize_degenerate [OF ne]
    by blast
qed

theorem heatmap_min_max_witness:
  "computeCAM demo_layers (\<lambda>i. demo_activation)
     = Inr \<lparr>convIndex = 2, importance = [[0, 4], [0, 2]], heatmap = [[0, 1], [0, 1 / 2]]\<rparr>
   \<and> minVal [[0, 4], [0, 2]] < maxVal [[0, 4], [0, 2]]
   \<and> list_all (\<lambda>v. 0 \<le> v \<and> v \<le> 1) (concat [[0, 1], [0, 1 / 2 :: real]])
   \<and> 0 \<in> set (concat [[0, 1], [0, 1 / 2 :: real]])
   \<and> 1 \<in> set (concat [[0, 1], [0, 1 / 2 :: real]])
   \<and> computeCAM demo_layers (\<lambda>i. flat_activation)
     = Inr \<lparr>convIndex = 2, importance = [[2, 2], [2, 2]], heatmap = [[0, 0], [0, 0]]\<rparr>
   \<and> set (concat [[2, 2], [2, 2 :: real]]) = {2}
   \<and> cam_range [[2, 2], [2, 2]] = 1
   \<and> list_all (\<lambda>v. v = 0) (concat [[0, 0], [0, 0 :: real]])"
proof -
  have e1: "computeCAM demo_layers (\<lambda>i. demo_activation)
     = Inr \<lparr>convIndex = 2, importance = [[0, 4], [0, 2]], heatmap = [[0, 1], [0, 1 / 2]]\<rparr>"
    by code_simp
  have e2: "computeCAM demo_layers (\<lambda>i. flat_activation)
     = Inr \<lparr>convIndex = 2, importance = [[2, 2], [2, 2]], heatmap = [[0, 0], [0, 0]]\<rparr>"
    by code_simp
  have g: "minVal [[0, 4], [0, 2]] < maxVal [[0, 4], [0, 2]]"
    by (simp add: minVal_def maxVal_def)
  have q: "set (concat [[2, 2], [2, 2 :: real]]) = {2}"
    by simp
  then have q': "\<forall>v\<in>set (concat [[2, 2], [2, 2 :: real]]). \<forall>w\<in>set (concat [[2, 2], [2, 2 :: real]]). v = w"
    by simp
  note t1 = heatmap_min_max [OF e1, simplified cam_result.simps]
  note t2 = heatmap_min_max [OF e2, simplified cam_result.simps]
  from t1 g have a: "\<forall>v\<in>set (concat [[0, 1], [0, 1 / 2 :: real]]). 0 \<le> v \<and> v \<le> 1"
    and z: "0 \<in> set (concat [[0, 1], [0, 1 / 2 :: real]])"
    and o: "1 \<in> set (concat [[0, 1], [0, 1 / 2 :: real]])"
    by blast+
  from a have a': "list_all (\<lambda>v. 0 \<le> v \<and> v \<le> 1) (concat [[0, 1], [0, 1 / 2 :: real]])"
    unfolding list_all_iff .
  from t2 q' have b: "cam_range [[2, 2], [2, 2]] = 1"
    and c: "\<forall>v\<in>set (concat [[0, 0], [0, 0 :: real]]). v = 0"
    by blast+
  from c have c': "list_all (\<lambda>v. v = 0) (concat [[0, 0], [0, 0 :: real]])"
    unfolding list_all_iff .
  from e1 g a' z o e2 q b c' show ?thesis by blast
qed

text \<open>
  C5: the activation tensor is taken from the convolutional layer with the highest
  index, and for a tensor of shape [H, W, F] the importance score before normalisation
  at \<open>(y, x)\<close> is \<open>max 0\<close> of the sum over all \<open>F\<close> filters of
  \<open>activation[y][x][f]\<close>.
\<close>

theorem importance_is_relu_of_filter_sum:
  assumes "computeCAM layers predictLayer = Inr r"
    and "shaped H W F (predictLayer (convIndex r))"
    and "y < H" and "x < W"
  shows "convIndex r < length layers
       \<and> className (layers ! convIndex r) = ''Conv2D''
       \<and> (\<forall>j < length layers. className (layers ! j) = ''Conv2D'' \<longrightarrow> j \<le> convIndex r)
       \<and> length (importance r) = H \<and> length (importance r ! y) = W
       \<and> importance r ! y ! x = max 0 (\<Sum>f = 0..<F. predictLayer (convIndex r) ! y ! x ! f)"
proof -
  let ?d = "predictLayer (convIndex r)"
  from computeCAM_Inr [OF assms(1)]
  have lc: "lastConvLayer layers (length layers) = Some (convIndex r)"
    and im: "importance r = importance_map ?d (length ?d) (length (?d ! 0)) (length (?d ! 0 ! 0))"
    by simp_all
  from lastConvLayer_Some [OF lc]
  have i1: "convIndex r < length layers" and i2: "className (layers ! convIndex r) = ''Conv2D''"
    and i3: "\<forall>j. convIndex r < j \<and> j < length layers \<longrightarrow> className (layers ! j) \<noteq> ''Conv2D''"
    by simp_all
  have i3': "\<forall>j < length layers. className (layers ! j) = ''Conv2D'' \<longrightarrow> j \<le> convIndex r"
    using i3 by (meson not_le_imp_less)
  have H: "length ?d = H" using assms(2) by (simp add: shaped_def)
  have "0 < H" using assms(3) by simp
  have "0 < W" using assms(4) by simp
  have W: "length (?d ! 0) = W" and F: "length (?d ! 0 ! 0) = F"
    using shaped_cell [OF assms(2) \<open>0 < H\<close> \<open>0 < W\<close>] by simp_all
  have cell: "length (?d ! y ! x) = F"
    using shaped_cell [OF assms(2,3,4)] by simp
  have im': "importance r = importance_map ?d H W F" using im H W F by simp
  have l1: "length (importance r) = H" by (simp add: im' importance_map_def)
  have l2: "length (importance r ! y) = W" using assms(3) by (simp add: im' importance_map_def)
  have "importance r ! y ! x = max 0 (weightedSum ?d F y x)"
    unfolding im' using assms(3,4) by (rule importance_map_nth)
  also have "weightedSum ?d F y x = sum_list (?d ! y ! x)"
    using cell by (intro weightedSum_sum) simp
  also have "sum_list (?d ! y ! x) = (\<Sum>f = 0..<F. ?d ! y ! x ! f)"
    using cell by (simp add: sum_list_sum_nth)
  finally have v: "importance r ! y ! x = max 0 (\<Sum>f = 0..<F. ?d ! y ! x ! f)" .
  from i1 i2 i3' l1 l2 v show ?thesis by blast
qed

theorem importance_is_relu_of_filter_sum_witness:
  "computeCAM demo_layers (\<lambda>i. demo_activation) = Inr \<lparr>convIndex = 2, importance = [[0, 4], [0, 2]], heatmap = [[0, 1], [0, 1 / 2]]\<rparr>
   \<and> shaped 2 2 2 demo_activation
   \<and> [[0, 4], [0, 2 :: real]] ! 1 ! 1 = max 0 (\<Sum>f = 0..<2. demo_activation ! 1 ! 1 ! f)
   \<and> className (demo_layers ! 2) = ''Conv2D''"
proof -
  have e1: "computeCAM demo_layers (\<lambda>i. demo_activation) = Inr \<lparr>convIndex = 2, importance = [[0, 4], [0, 2]], heatmap = [[0, 1], [0, 1 / 2]]\<rparr>"
    by code_simp
  have sh: "shaped 2 2 2 demo_activation"
    by (simp add: shaped_def demo_activation_def)
  then have sh': "shaped 2 2 2 ((\<lambda>i. demo_activation) (convIndex \<lparr>convIndex = 2, importance = [[0, 4], [0, 2]], heatmap = [[0, 1], [0, 1 / 2]]\<rparr>))"
    by simp
  have lt: "(1::nat) < 2" by simp
  note t = importance_is_relu_of_filter_sum [OF e1 sh' lt lt, simplified cam_result.simps]
  from t e1 sh show ?thesis by blast
qed
text \<open>
  C6: the hot colour map at its end points. At value 0 both versions give (0, 0, 0).
  Red is 255 at 1/3 and green is 255 at 2/3, but at value 1 the blue channel is 252
  in both versions, not 255: the last ramp starts at 0.67 with slope 3 and reaches
  only 0.99 at 1.
\<close>

theorem hot_colormap_at_one:
  "cam_color 1 = (255, 255, 252) \<and> hotColor 1 = (255, 255, 252)
   \<and> cam_color 0 = (0, 0, 0) \<and> hotColor 0 = (0, 0, 0)
   \<and> cam_color (1 / 3) = (255, 3, 0) \<and> cam_color (2 / 3) = (255, 255, 0)"
  by (simp add: cam_color_def hotColor_def Math_round_def)


section \<open>Properties of the training controller\<close>

lemmas seg_defs = finish_def reject_def after_batches_def batch_body_def after_batch_pause_def
  batch_pause_def batch_head_def epoch_body_def epoch_pause_def epoch_head_def

lemmas inv_defs = task_inv_def in_batches_def in_epoch_def core_def hist_len_def

lemma finish_inv:
  "core t \<Longrightarrow> evalCalls t = completedEpochs t \<Longrightarrow> task_inv (snd (finish h t))"
  by (simp add: finish_def inv_defs)

lemma reject_inv:
  "core t \<Longrightarrow> task_inv (snd (reject h t))"
  by (simp add: reject_def inv_defs)

lemma after_batches_inv:
  assumes "in_batches t" and "evalCalls t = completedEpochs t"
    and "\<not> stopTrainingRef h \<Longrightarrow> enat (batchCount t) = numBatches t"
  shows "task_inv (snd (after_batches net h t))"
proof (cases "stopTrainingRef h")
  case True
  have "core t" using assms(1) by (simp add: in_batches_def in_epoch_def)
  then have "task_inv (snd (finish h t))" using assms(2) by (rule finish_inv)
  then show ?thesis using True by (simp add: after_batches_def)
next
  case False
  show ?thesis
  proof (cases "models h (activeModel t)")
    case None
    have "core t" using assms(1) by (simp add: in_batches_def in_epoch_def)
    then have "task_inv (snd (reject h t))" by (rule reject_inv)
    then show ?thesis using False None by (simp add: after_batches_def)
  next
    case (Some w)
    then show ?thesis using False assms by (simp add: after_batches_def inv_defs)
  qed
qed

lemma batch_body_inv:
  assumes "in_batches t" and "evalCalls t = completedEpochs t"
    and "batchCount t = batch t" and "enat (batch t) < numBatches t"
  shows "task_inv (snd (batch_body h t))"
proof (cases "getBatch (trainImages (trainData t)) (trainLabels (trainData t)) (batchSize t) (batch t)")
  case (Inl a)
  have "core t" using assms(1) by (simp add: in_batches_def in_epoch_def)
  then have "task_inv (snd (reject h t))" by (rule reject_inv)
  then show ?thesis using Inl by (simp add: batch_body_def)
next
  case (Inr b)
  then show ?thesis using assms by (simp add: batch_body_def inv_defs)
qed

lemma batch_pause_inv:
  assumes "in_batches t" and "evalCalls t = completedEpochs t"
    and "batchCount t = batch t" and "enat (batch t) < numBatches t"
  shows "task_inv (snd (batch_pause net h t))"
proof (cases "pauseTrainingRef h \<and> \<not> stopTrainingRef h")
  case True
  then show ?thesis using assms by (simp add: batch_pause_def inv_defs)
next
  case False
  show ?thesis
  proof (cases "stopTrainingRef h")
    case True
    have "task_inv (snd (after_batches net h t))"
      using assms(1,2) True by (intro after_batches_inv) simp_all
    then show ?thesis
      using True by (simp add: batch_pause_def after_batch_pause_def)
  next
    case nostop: False
    have "task_inv (snd (batch_body h t))"
      using assms by (rule batch_body_inv)
    then show ?thesis
      using False nostop by (simp add: batch_pause_def after_batch_pause_def)
  qed
qed

lemma batch_head_inv:
  assumes "in_batches t" and "evalCalls t = completedEpochs t"
    and "batchCount t = batch t" and "enat (batch t) \<le> numBatches t"
  shows "task_inv (snd (batch_head net h t))"
proof (cases "enat (batch t) < numBatches t")
  case True
  show ?thesis
  proof (cases "stopTrainingRef h")
    case stop: True
    have "task_inv (snd (after_batches net h t))"
      using assms(1,2) stop by (intro after_batches_inv) simp_all
    then show ?thesis using True stop by (simp add: batch_head_def)
  next
    case False
    have "task_inv (snd (batch_pause net h t))"
      using assms(1,2,3) True by (rule batch_pause_inv)
    then show ?thesis using True False by (simp add: batch_head_def)
  qed
next
  case False
  then have "enat (batchCount t) = numBatches t" using assms(3,4) by simp
  then have "task_inv (snd (after_batches net h t))"
    using assms(1,2) by (intro after_batches_inv) simp_all
  then show ?thesis using False by (simp add: batch_head_def)
qed

lemma batch_done_inv:
  assumes "task_inv t" and "pc t = AwaitTrain"
  shows "task_inv (snd (batch_done net h t))"
proof (cases "models h (activeModel t)")
  case None
  from assms have "core t" by (simp add: task_inv_def in_batches_def in_epoch_def)
  then have "task_inv (snd (reject h t))" by (rule reject_inv)
  then show ?thesis using None by (simp add: batch_done_def)
next
  case (Some w)
  obtain result w' where r: "trainOnBatch net w (fst (currentBatch t)) (snd (currentBatch t)) = (result, w')"
    by (cases "trainOnBatch net w (fst (currentBatch t)) (snd (currentBatch t))")
  define bl where "bl = (case result of Scalar l \<Rightarrow> l | Metrics l a \<Rightarrow> l)"
  define ba where "ba = (case result of Scalar l \<Rightarrow> 0 | Metrics l a \<Rightarrow> a)"
  define t' where "t' = t\<lparr>epochLoss := epochLoss t + bl, epochAcc := epochAcc t + ba,
                     batchCount := batchCount t + 1, batchLog := batchLog t @ [(bl, ba)]\<rparr>"
  from assms have a: "in_batches t" "batchCount t = batch t" "enat (batch t) < numBatches t"
    "evalCalls t = completedEpochs t"
    by (simp_all add: task_inv_def)
  have ib: "in_batches t'" using a(1) by (simp add: t'_def in_batches_def in_epoch_def core_def hist_len_def)
  show ?thesis
  proof (cases "batch t mod 10 = 0")
    case True
    have "task_inv (t'\<lparr>pc := AwaitBatchFrame\<rparr>)"
      using ib a by (simp add: task_inv_def t'_def in_batches_def in_epoch_def core_def hist_len_def)
    then show ?thesis using Some r True
      by (simp add: batch_done_def Let_def bl_def ba_def t'_def)
  next
    case False
    have ib2: "in_batches (t'\<lparr>batch := batch t + 1\<rparr>)"
      using ib by (simp add: in_batches_def in_epoch_def core_def hist_len_def)
    have "enat (batch t + 1) \<le> numBatches t" using a(3) by (simp add: Suc_ile_eq)
    then have "task_inv (snd (batch_head net hh (t'\<lparr>batch := batch t + 1\<rparr>)))" for hh
      using ib2 a by (intro batch_head_inv) (simp_all add: t'_def)
    then show ?thesis using Some r False
      by (simp add: batch_done_def Let_def bl_def ba_def t'_def)
  qed
qed

lemma epoch_body_inv:
  assumes "in_epoch t" and "evalCalls t = completedEpochs t"
  shows "task_inv (snd (epoch_body net h t))"
proof (cases "stopTrainingRef h")
  case True
  have "core t" using assms(1) by (simp add: in_epoch_def)
  then have "task_inv (snd (finish h t))" using assms(2) by (rule finish_inv)
  then show ?thesis using True by (simp add: epoch_body_def)
next
  case False
  have "in_batches (t\<lparr>epochLoss := 0, epochAcc := 0, batchCount := 0, batch := 0, batchLog := []\<rparr>)"
    using assms(1) by (simp add: in_batches_def in_epoch_def core_def hist_len_def)
  then have "task_inv (snd (batch_head net h (t\<lparr>epochLoss := 0, epochAcc := 0, batchCount := 0, batch := 0, batchLog := []\<rparr>)))"
    using assms(2) by (intro batch_head_inv) (simp_all add: zero_enat_def [symmetric])
  then show ?thesis using False by (simp add: epoch_body_def)
qed

lemma epoch_pause_inv:
  assumes "in_epoch t" and "evalCalls t = completedEpochs t"
  shows "task_inv (snd (epoch_pause net h t))"
proof (cases "pauseTrainingRef h \<and> \<not> stopTrainingRef h")
  case True
  then show ?thesis using assms
    by (simp add: epoch_pause_def task_inv_def in_epoch_def core_def hist_len_def)
next
  case False
  have "task_inv (snd (epoch_body net h t))" using assms by (rule epoch_body_inv)
  then show ?thesis using False by (auto simp: epoch_pause_def)
qed

lemma epoch_head_inv:
  assumes "core t" and "completedEpochs t = epoch t" and "evalCalls t = completedEpochs t"
  shows "task_inv (snd (epoch_head net h t))"
proof (cases "epoch t < epochs t \<and> \<not> stopTrainingRef h")
  case True
  then have "in_epoch t" using assms by (simp add: in_epoch_def)
  then have "task_inv (snd (epoch_pause net h t))" using assms(3) by (rule epoch_pause_inv)
  then show ?thesis using True by (simp add: epoch_head_def)
next
  case False
  have "task_inv (snd (finish h t))" using assms(1,3) by (rule finish_inv)
  then show ?thesis using False by (auto simp: epoch_head_def)
qed

lemma epoch_done_inv:
  assumes "task_inv t" and "pc t = AwaitValAcc"
  shows "task_inv (snd (epoch_done h t))"
proof -
  from assms have a: "in_batches t" "enat (batchCount t) = numBatches t"
    "evalCalls t = completedEpochs t + 1"
    by (simp_all add: task_inv_def)
  then show ?thesis
    by (auto simp: epoch_done_def Let_def task_inv_def in_batches_def in_epoch_def core_def
        hist_len_def nth_append less_Suc_eq)
qed

lemma resume_inv:
  assumes "task_inv t"
  shows "task_inv (snd (resume net h t))"
proof (cases "pc t")
  case EpochSleep
  with assms have "in_epoch t" "evalCalls t = completedEpochs t" by (simp_all add: task_inv_def)
  then have "task_inv (snd (epoch_pause net h t))" by (rule epoch_pause_inv)
  then show ?thesis using EpochSleep by (simp add: resume_def)
next
  case BatchSleep
  with assms have "in_batches t" "evalCalls t = completedEpochs t" "batchCount t = batch t"
    "enat (batch t) < numBatches t" by (simp_all add: task_inv_def)
  then have "task_inv (snd (batch_pause net h t))" by (rule batch_pause_inv)
  then show ?thesis using BatchSleep by (simp add: resume_def)
next
  case AwaitTrain
  then show ?thesis using assms by (simp add: resume_def batch_done_inv)
next
  case AwaitBatchFrame
  with assms have a: "in_batches t" "batchCount t = batch t + 1" "enat (batch t) < numBatches t"
    "evalCalls t = completedEpochs t"
    by (simp_all add: task_inv_def)
  have "in_batches (t\<lparr>batch := batch t + 1\<rparr>)"
    using a(1) by (simp add: in_batches_def in_epoch_def core_def hist_len_def)
  moreover have "enat (batch t + 1) \<le> numBatches t" using a(3) by (simp add: Suc_ile_eq)
  ultimately have "task_inv (snd (batch_head net h (t\<lparr>batch := batch t + 1\<rparr>)))"
    using a by (intro batch_head_inv) simp_all
  then show ?thesis using AwaitBatchFrame by (simp add: resume_def)
next
  case AwaitValLoss
  then show ?thesis using assms by (auto simp: resume_def inv_defs)
next
  case AwaitValAcc
  then show ?thesis using assms by (simp add: resume_def epoch_done_inv)
next
  case AwaitEpochFrame
  with assms have a: "core t" "completedEpochs t = epoch t + 1" "evalCalls t = completedEpochs t"
    by (simp_all add: task_inv_def)
  have "core (t\<lparr>epoch := epoch t + 1\<rparr>)" using a(1) by (simp add: core_def hist_len_def)
  then have "task_inv (snd (epoch_head net h (t\<lparr>epoch := epoch t + 1\<rparr>)))"
    using a by (intro epoch_head_inv) simp_all
  then show ?thesis using AwaitEpochFrame by (simp add: resume_def)
next
  case Returned
  then show ?thesis using assms by (simp add: resume_def)
next
  case Rejected
  then show ?thesis using assms by (simp add: resume_def)
qed

lemma train_Some:
  assumes "train net E bs mo h0 = Some (h, t)"
  shows "\<exists>m d. (case mo of Some m \<Rightarrow> Some m | None \<Rightarrow> model h0) = Some m \<and> dataRef h0 = Some d
     \<and> (h, t) = epoch_head net
           (h0\<lparr>isTraining := True, isPaused := False, stopTrainingRef := False, pauseTrainingRef := False\<rparr>)
           \<lparr>pc = EpochSleep, activeModel = m, epochs = E, batchSize = bs,
            trainData = d, numBatches = num_batches (numTrain d) bs,
            history = emptyHistory, completedEpochs = 0, epoch = 0, batch = 0,
            epochLoss = 0, epochAcc = 0, batchCount = 0, currentBatch = ([], []),
            valResult = (0, 0), trainCalls = 0, evalCalls = 0, batchLog = [],
            epochLog = []\<rparr>"
  using assms by (auto simp: train_def split: option.splits)

lemma train_inv:
  assumes "train net E bs mo h0 = Some (h, t)"
  shows "task_inv t"
proof -
  from train_Some [OF assms] obtain m d where
    e: "(h, t) = epoch_head net
           (h0\<lparr>isTraining := True, isPaused := False, stopTrainingRef := False, pauseTrainingRef := False\<rparr>)
           \<lparr>pc = EpochSleep, activeModel = m, epochs = E, batchSize = bs,
            trainData = d, numBatches = num_batches (numTrain d) bs,
            history = emptyHistory, completedEpochs = 0, epoch = 0, batch = 0,
            epochLoss = 0, epochAcc = 0, batchCount = 0, currentBatch = ([], []),
            valResult = (0, 0), trainCalls = 0, evalCalls = 0, batchLog = [],
            epochLog = []\<rparr>" (is "_ = epoch_head net ?h ?t")
    by blast
  have "task_inv (snd (epoch_head net ?h ?t))"
    by (rule epoch_head_inv) (simp_all add: core_def hist_len_def emptyHistory_def)
  with e show ?thesis by (metis snd_conv)
qed

lemma apply_event_inv:
  "task_inv (snd s) \<Longrightarrow> task_inv (snd (apply_event net ev s))"
  by (cases s; cases ev) (simp_all add: resume_inv split: sum.splits)

lemma exec_inv:
  "task_inv (snd s) \<Longrightarrow> task_inv (snd (exec net evs s))"
  by (induction evs arbitrary: s) (simp_all add: apply_event_inv)

lemma batch_head_static: "same_static t (snd (batch_head net h t))"
  by (simp add: same_static_def seg_defs split: option.splits sum.splits)

lemma resume_static: "same_static t (snd (resume net h t))"
proof (cases "pc t")
  case AwaitTrain
  have "same_static t' (snd (batch_head net hh t'))" for hh t' by (rule batch_head_static)
  then show ?thesis using AwaitTrain
    by (auto simp: resume_def batch_done_def Let_def reject_def same_static_def split: option.splits prod.splits)
next
  case AwaitBatchFrame
  then show ?thesis using batch_head_static [of "t\<lparr>batch := batch t + 1\<rparr>" net h]
    by (simp add: resume_def same_static_def)
qed (simp_all add: resume_def same_static_def seg_defs epoch_done_def Let_def split: option.splits sum.splits)

lemma apply_event_static: "same_static (snd s) (snd (apply_event net ev s))"
  using resume_static by (cases s; cases ev) (auto simp: same_static_def split: sum.splits)

lemma exec_static: "same_static (snd s) (snd (exec net evs s))"
proof (induction evs arbitrary: s)
  case Nil
  then show ?case by (simp add: same_static_def)
next
  case (Cons ev evs)
  from Cons.IH [of "apply_event net ev s"] apply_event_static [of s net ev]
  show ?case by (simp add: same_static_def)
qed

lemma train_static:
  assumes "train net E bs mo h0 = Some (h, t)" and "dataRef h0 = Some d"
  shows "numBatches t = num_batches (numTrain d) bs \<and> epochs t = E \<and> batchSize t = bs \<and> trainData t = d"
proof -
  from train_Some [OF assms(1)] assms(2) obtain m where
    e: "(h, t) = epoch_head net
           (h0\<lparr>isTraining := True, isPaused := False, stopTrainingRef := False, pauseTrainingRef := False\<rparr>)
           \<lparr>pc = EpochSleep, activeModel = m, epochs = E, batchSize = bs,
            trainData = d, numBatches = num_batches (numTrain d) bs,
            history = emptyHistory, completedEpochs = 0, epoch = 0, batch = 0,
            epochLoss = 0, epochAcc = 0, batchCount = 0, currentBatch = ([], []),
            valResult = (0, 0), trainCalls = 0, evalCalls = 0, batchLog = [],
            epochLog = []\<rparr>" (is "_ = epoch_head net ?h ?t")
    by auto
  have "same_static ?t (snd (epoch_head net ?h ?t))"
    using batch_head_static [of "?t\<lparr>epochLoss := 0, epochAcc := 0, batchCount := 0, batch := 0, batchLog := []\<rparr>" net ?h]
    by (simp add: epoch_head_def epoch_pause_def epoch_body_def finish_def same_static_def)
  with e have "same_static ?t t" by (metis snd_conv)
  then show ?thesis by (simp add: same_static_def)
qed

text \<open>
  What the two logs hold: the resumption after \<^verbatim>\<open>trainOnBatch\<close> appends the loss
  and the accuracy read from its result, the same values it adds to the sums of the
  epoch, and the completion of an epoch files the log of its batches.
\<close>

lemma batch_is_logged:
  assumes "pc t = AwaitTrain" and "models h (activeModel t) = Some w"
    and "trainOnBatch net w (fst (currentBatch t)) (snd (currentBatch t)) = (result, w')"
  shows "batchLog (snd (resume net h t)) =
           batchLog t @ [(case result of Scalar l \<Rightarrow> l | Metrics l a \<Rightarrow> l,
                          case result of Scalar l \<Rightarrow> 0 | Metrics l a \<Rightarrow> a)]
       \<and> epochLoss (snd (resume net h t)) =
           epochLoss t + (case result of Scalar l \<Rightarrow> l | Metrics l a \<Rightarrow> l)
       \<and> epochAcc (snd (resume net h t)) =
           epochAcc t + (case result of Scalar l \<Rightarrow> 0 | Metrics l a \<Rightarrow> a)"
  using assms
  by (simp add: resume_def batch_done_def Let_def seg_defs split: option.splits sum.splits)

lemma epoch_is_logged:
  assumes "pc t = AwaitValAcc"
  shows "epochLog (snd (resume net h t)) = epochLog t @ [batchLog t]"
  using assms by (simp add: resume_def epoch_done_def Let_def)




subsection \<open>Pause\<close>

lemma demo_start_eq: "train demo_net 2 2 None demo_hook = Some demo_start"
  by (simp add: demo_start_def train_def demo_hook_def)

lemma batch_head_flags:
  "stopTrainingRef (fst (batch_head net h t)) = stopTrainingRef h
   \<and> pauseTrainingRef (fst (batch_head net h t)) = pauseTrainingRef h"
  by (simp add: seg_defs split: option.splits sum.splits)

lemma epoch_head_flags:
  "stopTrainingRef (fst (epoch_head net h t)) = stopTrainingRef h
   \<and> pauseTrainingRef (fst (epoch_head net h t)) = pauseTrainingRef h"
  by (simp add: seg_defs split: option.splits sum.splits)

lemma batch_done_flags:
  "stopTrainingRef (fst (batch_done net h t)) = stopTrainingRef h
   \<and> pauseTrainingRef (fst (batch_done net h t)) = pauseTrainingRef h"
  by (simp add: batch_done_def Let_def reject_def batch_head_flags split: option.splits prod.splits)

lemma resume_flags:
  "stopTrainingRef (fst (resume net h t)) = stopTrainingRef h
   \<and> pauseTrainingRef (fst (resume net h t)) = pauseTrainingRef h"
proof (cases "pc t")
  case AwaitTrain
  then show ?thesis by (simp add: resume_def batch_done_flags)
next
  case AwaitBatchFrame
  then show ?thesis by (simp add: resume_def batch_head_flags)
next
  case AwaitEpochFrame
  then show ?thesis by (simp add: resume_def epoch_head_flags)
qed (simp_all add: resume_def seg_defs epoch_done_def Let_def split: option.splits sum.splits)

lemma batch_head_paused:
  assumes "pauseTrainingRef h" and "\<not> stopTrainingRef h"
  shows "trainCalls (snd (batch_head net h t)) = trainCalls t
       \<and> pc (snd (batch_head net h t)) \<in> {BatchSleep, AwaitValLoss, Rejected}
       \<and> (models h (activeModel t) \<noteq> None \<longrightarrow> pc (snd (batch_head net h t)) \<in> {BatchSleep, AwaitValLoss})
       \<and> models (fst (batch_head net h t)) = models h
       \<and> batchCount (snd (batch_head net h t)) = batchCount t
       \<and> batchLog (snd (batch_head net h t)) = batchLog t"
  using assms by (auto simp: seg_defs split: option.splits)

lemma resume_paused_calls:
  assumes "pauseTrainingRef h" and "\<not> stopTrainingRef h"
  shows "trainCalls (snd (resume net h t)) = trainCalls t"
proof (cases "pc t")
  case AwaitTrain
  show ?thesis
  proof (cases "models h (activeModel t)")
    case None
    then show ?thesis using AwaitTrain by (simp add: resume_def batch_done_def reject_def)
  next
    case (Some w)
    have "trainCalls (snd (batch_head net hh tt)) = trainCalls tt"
      if "pauseTrainingRef hh" "\<not> stopTrainingRef hh" for hh tt
      using batch_head_paused [OF that] by simp
    then show ?thesis using AwaitTrain Some assms
      by (simp add: resume_def batch_done_def Let_def split: prod.splits)
  qed
next
  case AwaitBatchFrame
  then show ?thesis using batch_head_paused [OF assms, of net "t\<lparr>batch := batch t + 1\<rparr>"]
    by (simp add: resume_def)
next
  case AwaitEpochFrame
  then show ?thesis using assms by (simp add: resume_def seg_defs)
qed (use assms in \<open>simp_all add: resume_def seg_defs epoch_done_def Let_def\<close>)

lemma resume_sleep_fixed:
  assumes "pauseTrainingRef h" and "\<not> stopTrainingRef h"
    and "pc t = EpochSleep \<or> pc t = BatchSleep"
  shows "resume net h t = (h, t)"
  using assms by (auto simp: resume_def epoch_pause_def batch_pause_def)

lemma exec_replicate_Suc:
  "exec net (replicate (Suc n) Resume) (h, t) = exec net (replicate n Resume) (resume net h t)"
  by simp

lemma paused_exec_calls:
  assumes "pauseTrainingRef h" and "\<not> stopTrainingRef h"
  shows "trainCalls (snd (exec net (replicate n Resume) (h, t))) = trainCalls t"
  using assms
proof (induction n arbitrary: h t)
  case 0
  then show ?case by simp
next
  case (Suc n)
  obtain h' t' where r: "resume net h t = (h', t')" by (cases "resume net h t")
  have f: "pauseTrainingRef h'" "\<not> stopTrainingRef h'"
    using resume_flags [of net h t] Suc.prems by (simp_all add: r)
  have "trainCalls t' = trainCalls t"
    using resume_paused_calls [OF Suc.prems, of net t] by (simp add: r)
  with Suc.IH [OF f, of t'] show ?case by (simp add: r)
qed

lemma paused_exec_fixed:
  assumes "pauseTrainingRef h" and "\<not> stopTrainingRef h"
    and "pc t = EpochSleep \<or> pc t = BatchSleep"
  shows "exec net (replicate n Resume) (h, t) = (h, t)"
  by (induction n) (simp_all add: resume_sleep_fixed [OF assms])

lemma inflight_completes:
  assumes "pauseTrainingRef h" and "\<not> stopTrainingRef h"
    and "pc t = AwaitTrain" and "models h (activeModel t) = Some w"
    and "trainOnBatch net w (fst (currentBatch t)) (snd (currentBatch t)) = (result, w')"
  shows "models (fst (resume net h t)) (activeModel t) = Some w'
       \<and> batchCount (snd (resume net h t)) = batchCount t + 1
       \<and> batchLog (snd (resume net h t)) =
           batchLog t @ [(case result of Scalar l \<Rightarrow> l | Metrics l a \<Rightarrow> l,
                          case result of Scalar l \<Rightarrow> 0 | Metrics l a \<Rightarrow> a)]
       \<and> trainCalls (snd (resume net h t)) = trainCalls t
       \<and> pc (snd (resume net h t)) \<in> {AwaitBatchFrame, BatchSleep, AwaitValLoss}"
proof (cases "batch t mod 10 = 0")
  case True
  then show ?thesis using assms by (simp add: resume_def batch_done_def Let_def)
next
  case False
  define bl where "bl = (case result of Scalar l \<Rightarrow> l | Metrics l a \<Rightarrow> l)"
  define ba where "ba = (case result of Scalar l \<Rightarrow> 0 | Metrics l a \<Rightarrow> a)"
  define h1 where "h1 = h\<lparr>models := (models h)(activeModel t \<mapsto> w'),
                     trainingProgress :=
                       TrainingProgress (epoch t + 1) (batch t + 1) (Some (numBatches t)) bl ba\<rparr>"
  define t1 where "t1 = t\<lparr>epochLoss := epochLoss t + bl, epochAcc := epochAcc t + ba,
                     batchCount := batchCount t + 1, batchLog := batchLog t @ [(bl, ba)],
                     batch := batch t + 1\<rparr>"
  have r: "resume net h t = batch_head net h1 t1"
    using assms False by (simp add: resume_def batch_done_def Let_def bl_def ba_def h1_def t1_def)
  have p: "pauseTrainingRef h1" "\<not> stopTrainingRef h1" using assms by (simp_all add: h1_def)
  have al: "models h1 (activeModel t1) \<noteq> None" by (simp add: h1_def t1_def)
  from batch_head_paused [OF p, of net t1] al
  show ?thesis unfolding r by (simp add: h1_def t1_def bl_def ba_def)
qed

text \<open>
  C2: while the pause flag is set and the stop flag is not, resuming the task any number
  of times makes no further call of \<open>trainOnBatch\<close>; a task that has seen the pause at
  a check point (it sleeps in the pause loop of an epoch or of a batch) does not change
  at all, so its batch index does not advance; and a batch that is in flight when the
  pause is requested completes: its result is accumulated and the model keeps the
  updated weights, with no new call.
\<close>

theorem paused_loop_trains_nothing:
  assumes "pauseTrainingRef h" and "\<not> stopTrainingRef h"
  shows "(\<forall>n. trainCalls (snd (exec net (replicate n Resume) (h, t))) = trainCalls t)
       \<and> (pc t = EpochSleep \<or> pc t = BatchSleep \<longrightarrow>
            (\<forall>n. exec net (replicate n Resume) (h, t) = (h, t)))
       \<and> (\<forall>w result w'. pc t = AwaitTrain \<and> models h (activeModel t) = Some w
             \<and> trainOnBatch net w (fst (currentBatch t)) (snd (currentBatch t)) = (result, w') \<longrightarrow>
             models (fst (resume net h t)) (activeModel t) = Some w'
             \<and> batchCount (snd (resume net h t)) = batchCount t + 1
             \<and> batchLog (snd (resume net h t)) =
                 batchLog t @ [(case result of Scalar l \<Rightarrow> l | Metrics l a \<Rightarrow> l,
                                case result of Scalar l \<Rightarrow> 0 | Metrics l a \<Rightarrow> a)]
             \<and> trainCalls (snd (resume net h t)) = trainCalls t
             \<and> pc (snd (resume net h t)) \<in> {AwaitBatchFrame, BatchSleep, AwaitValLoss})"
  using paused_exec_calls [OF assms] paused_exec_fixed [OF assms] inflight_completes [OF assms]
  by blast

theorem paused_loop_trains_nothing_witness:
  "pauseTrainingRef (fst demo_paused) \<and> \<not> stopTrainingRef (fst demo_paused)
   \<and> pc (snd demo_paused) = AwaitTrain
   \<and> trainCalls (snd (exec demo_net (replicate 5 Resume) demo_paused)) = trainCalls (snd demo_paused)
   \<and> batchCount (snd (resume demo_net (fst demo_paused) (snd demo_paused))) = batchCount (snd demo_paused) + 1
   \<and> pauseTrainingRef (fst demo_asleep) \<and> \<not> stopTrainingRef (fst demo_asleep)
   \<and> pc (snd demo_asleep) = BatchSleep
   \<and> exec demo_net (replicate 5 Resume) demo_asleep = demo_asleep"
proof -
  have p1: "pauseTrainingRef (fst demo_paused)" and n1: "\<not> stopTrainingRef (fst demo_paused)"
    and l1: "pc (snd demo_paused) = AwaitTrain"
    and m1: "models (fst demo_paused) (activeModel (snd demo_paused)) = Some 0"
    and r1: "trainOnBatch demo_net 0 (fst (currentBatch (snd demo_paused))) (snd (currentBatch (snd demo_paused)))
              = (Metrics 2 (1 / 2), 1)"
    by code_simp+
  have p2: "pauseTrainingRef (fst demo_asleep)" and n2: "\<not> stopTrainingRef (fst demo_asleep)"
    and l2: "pc (snd demo_asleep) = BatchSleep"
    by code_simp+
  note t1 = paused_loop_trains_nothing [OF p1 n1, of demo_net "snd demo_paused", simplified prod.collapse]
  note t2 = paused_loop_trains_nothing [OF p2 n2, of demo_net "snd demo_asleep", simplified prod.collapse]
  from t1 have a: "trainCalls (snd (exec demo_net (replicate 5 Resume) demo_paused)) = trainCalls (snd demo_paused)"
    by blast
  from t1 l1 m1 r1
  have b: "batchCount (snd (resume demo_net (fst demo_paused) (snd demo_paused))) = batchCount (snd demo_paused) + 1"
    by blast
  from t2 l2 have c: "exec demo_net (replicate 5 Resume) demo_asleep = demo_asleep"
    by blast
  from p1 n1 l1 a b p2 n2 l2 c show ?thesis by blast
qed


subsection \<open>Stop\<close>

lemma finish_ok:
  "mid T0 H0 h t \<Longrightarrow> (\<not> stopTrainingRef h \<longrightarrow> completedEpochs t = epochs t) \<Longrightarrow> hook_ok T0 H0 (finish h t)"
  by (auto simp: mid_def hook_ok_def finish_def)

lemma batch_head_ok:
  "mid T0 H0 h t \<Longrightarrow> hook_ok T0 H0 (batch_head net h t)"
  by (auto simp: mid_def hook_ok_def seg_defs split: option.splits sum.splits)

lemma batch_pause_ok:
  "mid T0 H0 h t \<Longrightarrow> hook_ok T0 H0 (batch_pause net h t)"
  by (auto simp: mid_def hook_ok_def seg_defs split: option.splits sum.splits)

lemma batch_done_ok:
  assumes "mid T0 H0 h t"
  shows "hook_ok T0 H0 (batch_done net h t)"
proof -
  from assms obtain w where w: "models h (activeModel t) = Some w" by (auto simp: mid_def)
  obtain result w' where r: "trainOnBatch net w (fst (currentBatch t)) (snd (currentBatch t)) = (result, w')"
    by (cases "trainOnBatch net w (fst (currentBatch t)) (snd (currentBatch t))")
  define bl where "bl = (case result of Scalar l \<Rightarrow> l | Metrics l a \<Rightarrow> l)"
  define ba where "ba = (case result of Scalar l \<Rightarrow> 0 | Metrics l a \<Rightarrow> a)"
  define h1 where "h1 = h\<lparr>models := (models h)(activeModel t \<mapsto> w'),
                     trainingProgress :=
                       TrainingProgress (epoch t + 1) (batch t + 1) (Some (numBatches t)) bl ba\<rparr>"
  define t1 where "t1 = t\<lparr>epochLoss := epochLoss t + bl, epochAcc := epochAcc t + ba,
                     batchCount := batchCount t + 1, batchLog := batchLog t @ [(bl, ba)]\<rparr>"
  have m1: "mid T0 H0 h1 t1" using assms by (simp add: mid_def h1_def t1_def)
  show ?thesis
  proof (cases "batch t mod 10 = 0")
    case True
    then have "batch_done net h t = (h1, t1\<lparr>pc := AwaitBatchFrame\<rparr>)"
      using w r by (simp add: batch_done_def Let_def bl_def ba_def h1_def t1_def)
    then show ?thesis using m1 by (simp add: hook_ok_def mid_def)
  next
    case False
    then have e: "batch_done net h t = batch_head net h1 (t1\<lparr>batch := batch t + 1\<rparr>)"
      using w r by (simp add: batch_done_def Let_def bl_def ba_def h1_def t1_def)
    have "mid T0 H0 h1 (t1\<lparr>batch := batch t + 1\<rparr>)" using m1 by (simp add: mid_def)
    then show ?thesis unfolding e by (rule batch_head_ok)
  qed
qed

lemma epoch_pause_ok:
  assumes "mid T0 H0 h t"
  shows "hook_ok T0 H0 (epoch_pause net h t)"
proof (cases "pauseTrainingRef h \<and> \<not> stopTrainingRef h")
  case True
  then show ?thesis using assms by (simp add: epoch_pause_def hook_ok_def mid_def)
next
  case False
  show ?thesis
  proof (cases "stopTrainingRef h")
    case True
    have "hook_ok T0 H0 (finish h t)" using assms True by (intro finish_ok) simp_all
    then show ?thesis using True by (simp add: epoch_pause_def epoch_body_def)
  next
    case nostop: False
    have "mid T0 H0 h (t\<lparr>epochLoss := 0, epochAcc := 0, batchCount := 0, batch := 0, batchLog := []\<rparr>)"
      using assms by (simp add: mid_def)
    then have "hook_ok T0 H0 (batch_head net h (t\<lparr>epochLoss := 0, epochAcc := 0, batchCount := 0, batch := 0, batchLog := []\<rparr>))"
      by (rule batch_head_ok)
    then show ?thesis using False nostop by (simp add: epoch_pause_def epoch_body_def)
  qed
qed

lemma epoch_head_ok:
  assumes "mid T0 H0 h t" and "\<not> epoch t < epochs t \<longrightarrow> completedEpochs t = epochs t"
  shows "hook_ok T0 H0 (epoch_head net h t)"
proof (cases "epoch t < epochs t \<and> \<not> stopTrainingRef h")
  case True
  have "hook_ok T0 H0 (epoch_pause net h t)" using assms(1) by (rule epoch_pause_ok)
  then show ?thesis using True by (simp add: epoch_head_def)
next
  case False
  have "hook_ok T0 H0 (finish h t)" using assms False by (intro finish_ok) auto
  then show ?thesis using False by (auto simp: epoch_head_def)
qed

lemma epoch_done_ok:
  "mid T0 H0 h t \<Longrightarrow> hook_ok T0 H0 (epoch_done h t)"
  by (simp add: mid_def hook_ok_def epoch_done_def Let_def)

lemma hook_ok_mid:
  "hook_ok T0 H0 (h, t) \<Longrightarrow> pc t \<noteq> Returned \<Longrightarrow> mid T0 H0 h t"
  by (simp add: hook_ok_def mid_def)

lemma resume_ok:
  assumes "task_inv t" and "hook_ok T0 H0 (h, t)"
  shows "hook_ok T0 H0 (resume net h t)"
proof (cases "pc t")
  case EpochSleep
  then have "mid T0 H0 h t" using assms(2) by (intro hook_ok_mid) simp_all
  then show ?thesis using EpochSleep by (simp add: resume_def epoch_pause_ok)
next
  case BatchSleep
  then have "mid T0 H0 h t" using assms(2) by (intro hook_ok_mid) simp_all
  then show ?thesis using BatchSleep by (simp add: resume_def batch_pause_ok)
next
  case AwaitTrain
  then have "mid T0 H0 h t" using assms(2) by (intro hook_ok_mid) simp_all
  then show ?thesis using AwaitTrain by (simp add: resume_def batch_done_ok)
next
  case AwaitBatchFrame
  then have "mid T0 H0 h t" using assms(2) by (intro hook_ok_mid) simp_all
  then have "mid T0 H0 h (t\<lparr>batch := batch t + 1\<rparr>)" by (simp add: mid_def)
  then show ?thesis using AwaitBatchFrame by (simp add: resume_def batch_head_ok)
next
  case AwaitValLoss
  then show ?thesis using assms(2) by (simp add: resume_def hook_ok_def)
next
  case AwaitValAcc
  then have "mid T0 H0 h t" using assms(2) by (intro hook_ok_mid) simp_all
  then show ?thesis using AwaitValAcc by (simp add: resume_def epoch_done_ok)
next
  case AwaitEpochFrame
  then have "mid T0 H0 h t" using assms(2) by (intro hook_ok_mid) simp_all
  then have m: "mid T0 H0 h (t\<lparr>epoch := epoch t + 1\<rparr>)" by (simp add: mid_def)
  from assms(1) AwaitEpochFrame have "completedEpochs t = epoch t + 1" "epoch t < epochs t"
    by (simp_all add: task_inv_def)
  then have "\<not> epoch (t\<lparr>epoch := epoch t + 1\<rparr>) < epochs (t\<lparr>epoch := epoch t + 1\<rparr>)
      \<longrightarrow> completedEpochs (t\<lparr>epoch := epoch t + 1\<rparr>) = epochs (t\<lparr>epoch := epoch t + 1\<rparr>)"
    by simp
  with m have "hook_ok T0 H0 (epoch_head net h (t\<lparr>epoch := epoch t + 1\<rparr>))" by (rule epoch_head_ok)
  then show ?thesis using AwaitEpochFrame by (simp add: resume_def)
next
  case Returned
  then show ?thesis using assms(2) by (simp add: resume_def)
next
  case Rejected
  then show ?thesis using assms(2) by (simp add: resume_def)
qed

lemma ctrl_event_ok:
  assumes "is_ctrl ev" and "task_inv (snd s)" and "hook_ok T0 H0 s"
  shows "hook_ok T0 H0 (apply_event net ev s)"
proof (cases s)
  case (Pair h t)
  show ?thesis
  proof (cases ev)
    case Resume
    then show ?thesis using assms Pair by (simp add: resume_ok)
  next
    case Stop
    then show ?thesis using assms Pair by (simp add: hook_ok_def stopTraining_def)
  next
    case Pause
    then show ?thesis using assms Pair by (simp add: hook_ok_def pauseTraining_def)
  qed (use assms in simp_all)
qed

lemma ctrl_exec_ok:
  assumes "list_all is_ctrl evs" and "task_inv (snd s)" and "hook_ok T0 H0 s"
  shows "task_inv (snd (exec net evs s)) \<and> hook_ok T0 H0 (exec net evs s)"
  using assms
proof (induction evs arbitrary: s)
  case Nil
  then show ?case by simp
next
  case (Cons ev evs)
  have "task_inv (snd (apply_event net ev s))" using Cons.prems(2) by (rule apply_event_inv)
  moreover have "hook_ok T0 H0 (apply_event net ev s)"
    using Cons.prems by (intro ctrl_event_ok) simp_all
  ultimately show ?case using Cons.IH Cons.prems(1) by simp
qed

lemma exec_append: "exec net (xs @ ys) s = exec net ys (exec net xs s)"
  by (induction xs arbitrary: s) simp_all

lemma finish_pc:
  "pc (snd (finish h t)) = Returned \<and> completedEpochs (snd (finish h t)) = completedEpochs t
   \<and> evalCalls (snd (finish h t)) = evalCalls t"
  by (simp add: finish_def)

lemma batch_head_stopped:
  assumes "stopTrainingRef h"
  shows "batch_head net h t = finish h t"
  using assms by (simp add: seg_defs)

lemma stopping_resume:
  assumes "stopping e T0 H0 (h, t)"
  shows "stopping e T0 H0 (resume net h t) \<and> dist (pc (snd (resume net h t))) \<le> dist (pc t) - 1"
proof -
  from assms have stop: "stopTrainingRef h" and inv: "task_inv t" and ok: "hook_ok T0 H0 (h, t)"
    and ce: "completedEpochs t = e" and ev: "evalCalls t = e"
    and ph: "in_batch_phase t \<or> pc t = Returned"
    by (simp_all add: stopping_def)
  have stop': "stopTrainingRef (fst (resume net h t))" using resume_flags [of net h t] stop by simp
  have inv': "task_inv (snd (resume net h t))" using inv by (rule resume_inv)
  have ok': "hook_ok T0 H0 (resume net h t)" using inv ok by (rule resume_ok)
  have rest: "completedEpochs (snd (resume net h t)) = e \<and> evalCalls (snd (resume net h t)) = e
       \<and> (in_batch_phase (snd (resume net h t)) \<or> pc (snd (resume net h t)) = Returned)
       \<and> dist (pc (snd (resume net h t))) \<le> dist (pc t) - 1"
  proof -
    from ph consider "pc t = EpochSleep" | "pc t = BatchSleep" | "pc t = AwaitTrain"
      | "pc t = AwaitBatchFrame" | "pc t = Returned"
      by (auto simp: in_batch_phase_def)
    then show ?thesis
    proof cases
      case 1
      then show ?thesis using stop ce ev
        by (simp add: resume_def epoch_pause_def epoch_body_def finish_def)
    next
      case 2
      then show ?thesis using stop ce ev
        by (simp add: resume_def batch_pause_def after_batch_pause_def after_batches_def finish_def)
    next
      case 3
      from ok obtain w where w: "models h (activeModel t) = Some w" by (auto simp: hook_ok_def)
      obtain result w' where r: "trainOnBatch net w (fst (currentBatch t)) (snd (currentBatch t)) = (result, w')"
        by (cases "trainOnBatch net w (fst (currentBatch t)) (snd (currentBatch t))")
      show ?thesis
      proof (cases "batch t mod 10 = 0")
        case True
        then show ?thesis using 3 w r ce ev
          by (simp add: resume_def batch_done_def Let_def in_batch_phase_def)
      next
        case False
        then show ?thesis using 3 w r ce ev stop
          by (simp add: resume_def batch_done_def Let_def batch_head_stopped finish_def)
      qed
    next
      case 4
      then show ?thesis using stop ce ev
        by (simp add: resume_def batch_head_stopped finish_def)
    next
      case 5
      then show ?thesis using ce ev by (simp add: resume_def)
    qed
  qed
  from stop' inv' ok' rest show ?thesis by (simp add: stopping_def)
qed

lemma stopping_event:
  assumes "stopping e T0 H0 s" and "is_ctrl ev"
  shows "stopping e T0 H0 (apply_event net ev s)
       \<and> dist (pc (snd (apply_event net ev s))) \<le> dist (pc (snd s)) - (if ev = Resume then 1 else 0)"
proof (cases s)
  case (Pair h t)
  show ?thesis
  proof (cases ev)
    case Resume
    then show ?thesis using stopping_resume [of e T0 H0 h t net] assms(1) Pair by simp
  next
    case Stop
    then show ?thesis using assms(1) Pair by (simp add: stopping_def hook_ok_def stopTraining_def)
  next
    case Pause
    then show ?thesis using assms(1) Pair by (simp add: stopping_def hook_ok_def pauseTraining_def)
  qed (use assms(2) in simp_all)
qed

lemma stopping_exec:
  assumes "list_all is_ctrl evs" and "stopping e T0 H0 s"
  shows "stopping e T0 H0 (exec net evs s)
       \<and> dist (pc (snd (exec net evs s))) \<le> dist (pc (snd s)) - count_list evs Resume"
  using assms
proof (induction evs arbitrary: s)
  case Nil
  then show ?case by simp
next
  case (Cons ev evs)
  from Cons.prems have c: "is_ctrl ev" "list_all is_ctrl evs" by simp_all
  from stopping_event [OF Cons.prems(2) c(1), of net]
  have st: "stopping e T0 H0 (apply_event net ev s)"
    and d1: "dist (pc (snd (apply_event net ev s))) \<le> dist (pc (snd s)) - (if ev = Resume then 1 else 0)"
    by simp_all
  from Cons.IH [OF c(2) st]
  have st2: "stopping e T0 H0 (exec net evs (apply_event net ev s))"
    and d2: "dist (pc (snd (exec net evs (apply_event net ev s))))
              \<le> dist (pc (snd (apply_event net ev s))) - count_list evs Resume"
    by simp_all
  from d1 d2 have "dist (pc (snd (exec net evs (apply_event net ev s))))
              \<le> dist (pc (snd s)) - count_list (ev # evs) Resume"
    by (cases "ev = Resume") simp_all
  with st2 show ?case by simp
qed

lemma dist_le_2: "dist l \<le> 2"
  by (cases l) simp_all

lemma dist_0: "dist l = 0 \<Longrightarrow> l = Returned"
  by (cases l) simp_all

lemma epoch_head_models: "models (fst (epoch_head net h t)) = models h"
  by (simp add: seg_defs split: option.splits sum.splits)

lemma train_ok:
  assumes "train net E bs mo h0 = Some s0"
    and "models (fst s0) (activeModel (snd s0)) \<noteq> None"
  shows "hook_ok (trainedEpochs h0) (trainingHistory h0) s0 \<and> \<not> stopTrainingRef (fst s0)"
proof -
  obtain h t where s0: "s0 = (h, t)" by (cases s0)
  from train_Some [OF assms(1) [unfolded s0]] obtain m d where
    e: "(h, t) = epoch_head net
           (h0\<lparr>isTraining := True, isPaused := False, stopTrainingRef := False, pauseTrainingRef := False\<rparr>)
           \<lparr>pc = EpochSleep, activeModel = m, epochs = E, batchSize = bs,
            trainData = d, numBatches = num_batches (numTrain d) bs,
            history = emptyHistory, completedEpochs = 0, epoch = 0, batch = 0,
            epochLoss = 0, epochAcc = 0, batchCount = 0, currentBatch = ([], []),
            valResult = (0, 0), trainCalls = 0, evalCalls = 0, batchLog = [],
            epochLog = []\<rparr>" (is "_ = epoch_head net ?h ?t")
    by blast
  have "same_static ?t (snd (epoch_head net ?h ?t))"
    using batch_head_static [of "?t\<lparr>epochLoss := 0, epochAcc := 0, batchCount := 0, batch := 0, batchLog := []\<rparr>" net ?h]
    by (simp add: epoch_head_def epoch_pause_def epoch_body_def finish_def same_static_def)
  moreover have t: "t = snd (epoch_head net ?h ?t)" and h: "h = fst (epoch_head net ?h ?t)"
    using e by (metis snd_conv, metis fst_conv)
  ultimately have am: "activeModel t = m" by (simp add: same_static_def)
  have "models (fst (epoch_head net ?h ?t)) = models ?h" by (rule epoch_head_models)
  then have ms: "models h = models h0" unfolding h by simp
  have alive: "models h0 m \<noteq> None" using assms(2) am ms by (simp add: s0)
  have "mid (trainedEpochs h0) (trainingHistory h0) ?h ?t" using alive by (simp add: mid_def)
  then have "hook_ok (trainedEpochs h0) (trainingHistory h0) (epoch_head net ?h ?t)"
    by (rule epoch_head_ok) simp
  moreover have "\<not> stopTrainingRef (fst (epoch_head net ?h ?t))"
    using epoch_head_flags [of net ?h ?t] by simp
  ultimately show ?thesis using e by (simp add: s0)
qed

lemma nostop_event:
  assumes "is_ctrl ev" and "ev \<noteq> Stop" and "\<not> stopTrainingRef (fst s)"
  shows "\<not> stopTrainingRef (fst (apply_event net ev s))"
proof (cases s)
  case (Pair h t)
  show ?thesis
  proof (cases ev)
    case Resume
    then show ?thesis using resume_flags [of net h t] assms(3) Pair by simp
  next
    case Pause
    then show ?thesis using assms(3) Pair by (simp add: pauseTraining_def)
  qed (use assms(1,2) in simp_all)
qed

lemma nostop_exec:
  assumes "list_all is_ctrl evs" and "Stop \<notin> set evs" and "\<not> stopTrainingRef (fst s)"
  shows "\<not> stopTrainingRef (fst (exec net evs s))"
  using assms
proof (induction evs arbitrary: s)
  case Nil
  then show ?case by simp
next
  case (Cons ev evs)
  then have "\<not> stopTrainingRef (fst (apply_event net ev s))"
    by (intro nostop_event) auto
  with Cons show ?case by simp
qed

text \<open>
  C1, as the code has it. A run is started with \<open>E\<close> requested epochs on a usable
  model and a dataset, and only resumptions, stop and pause requests follow. If stop is
  requested while epoch \<open>k = epoch + 1\<close> is in progress and the task has not yet passed
  the stop check that follows the batches of that epoch (it sleeps in a pause loop,
  has a batch in flight or awaits a frame between batches), the call returns within two
  resumptions, without a validation or a record for epoch \<open>k\<close>: \<open>k - 1\<close> records in
  each of the four lists, \<open>k - 1\<close> validations, and the counter of trained epochs
  raised by exactly \<open>k - 1\<close>. Whenever the call has returned, the counter has been
  raised by exactly the number of completed epochs, which is \<open>E\<close> when stop was never
  requested.
\<close>

theorem stop_before_validation:
  assumes "train net E bs mo h0 = Some s0"
    and "models (fst s0) (activeModel (snd s0)) \<noteq> None"
  shows "(\<forall>evs1 evs2.
            list_all is_ctrl evs1 \<and> list_all is_ctrl evs2
            \<and> in_batch_phase (snd (exec net evs1 s0)) \<and> 2 \<le> count_list evs2 Resume \<longrightarrow>
            pc (snd (exec net (evs1 @ Stop # evs2) s0)) = Returned
            \<and> hist_len (history (snd (exec net (evs1 @ Stop # evs2) s0))) (epoch (snd (exec net evs1 s0)))
            \<and> completedEpochs (snd (exec net (evs1 @ Stop # evs2) s0)) = epoch (snd (exec net evs1 s0))
            \<and> evalCalls (snd (exec net (evs1 @ Stop # evs2) s0)) = epoch (snd (exec net evs1 s0))
            \<and> trainedEpochs (fst (exec net (evs1 @ Stop # evs2) s0))
                = trainedEpochs h0 + epoch (snd (exec net evs1 s0))
            \<and> (0 < epoch (snd (exec net evs1 s0)) \<longrightarrow>
                 trainingHistory (fst (exec net (evs1 @ Stop # evs2) s0))
                   = history (snd (exec net (evs1 @ Stop # evs2) s0))))
       \<and> (\<forall>evs. list_all is_ctrl evs \<and> pc (snd (exec net evs s0)) = Returned \<longrightarrow>
            hist_len (history (snd (exec net evs s0))) (completedEpochs (snd (exec net evs s0)))
            \<and> trainedEpochs (fst (exec net evs s0))
                = trainedEpochs h0 + completedEpochs (snd (exec net evs s0))
            \<and> (Stop \<notin> set evs \<longrightarrow> completedEpochs (snd (exec net evs s0)) = E))"
proof -
  let ?T = "trainedEpochs h0" and ?H = "trainingHistory h0"
  obtain h1 t1 where s0: "s0 = (h1, t1)" by (cases s0)
  have inv0: "task_inv (snd s0)" using train_inv [OF assms(1) [unfolded s0]] by (simp add: s0)
  from train_ok [OF assms] have ok0: "hook_ok ?T ?H s0" and ns0: "\<not> stopTrainingRef (fst s0)"
    by simp_all
  have E: "epochs (snd s0) = E"
  proof -
    from train_Some [OF assms(1) [unfolded s0]] obtain d where "dataRef h0 = Some d" by blast
    from train_static [OF assms(1) [unfolded s0] this] show ?thesis by (simp add: s0)
  qed
  have part1: "pc (snd (exec net (evs1 @ Stop # evs2) s0)) = Returned
            \<and> hist_len (history (snd (exec net (evs1 @ Stop # evs2) s0))) (epoch (snd (exec net evs1 s0)))
            \<and> completedEpochs (snd (exec net (evs1 @ Stop # evs2) s0)) = epoch (snd (exec net evs1 s0))
            \<and> evalCalls (snd (exec net (evs1 @ Stop # evs2) s0)) = epoch (snd (exec net evs1 s0))
            \<and> trainedEpochs (fst (exec net (evs1 @ Stop # evs2) s0))
                = trainedEpochs h0 + epoch (snd (exec net evs1 s0))
            \<and> (0 < epoch (snd (exec net evs1 s0)) \<longrightarrow>
                 trainingHistory (fst (exec net (evs1 @ Stop # evs2) s0))
                   = history (snd (exec net (evs1 @ Stop # evs2) s0)))"
    if c1: "list_all is_ctrl evs1" and c2: "list_all is_ctrl evs2"
      and ph: "in_batch_phase (snd (exec net evs1 s0))" and cnt: "2 \<le> count_list evs2 Resume"
    for evs1 evs2
  proof -
    obtain h t where s: "exec net evs1 s0 = (h, t)" by (cases "exec net evs1 s0")
    from ctrl_exec_ok [OF c1 inv0 ok0, of net] have inv: "task_inv t" and ok: "hook_ok ?T ?H (h, t)"
      by (simp_all add: s)
    from ph have ph': "in_batch_phase t" by (simp add: s)
    from inv ph' have ce: "completedEpochs t = epoch t" and ev: "evalCalls t = epoch t"
      by (auto simp: task_inv_def in_batch_phase_def in_batches_def in_epoch_def)
    have st: "stopping (epoch t) ?T ?H (stopTraining h, t)"
      using inv ok ph' ce ev by (simp add: stopping_def hook_ok_def stopTraining_def)
    let ?f = "exec net evs2 (stopTraining h, t)"
    from stopping_exec [OF c2 st, of net]
    have stf: "stopping (epoch t) ?T ?H ?f"
      and d: "dist (pc (snd ?f)) \<le> dist (pc t) - count_list evs2 Resume"
      by simp_all
    from d cnt dist_le_2 [of "pc t"] have "dist (pc (snd ?f)) = 0" by simp
    then have r: "pc (snd ?f) = Returned" by (rule dist_0)
    have f: "exec net (evs1 @ Stop # evs2) s0 = ?f" by (simp add: exec_append s)
    from stf have cf: "completedEpochs (snd ?f) = epoch t" and ef: "evalCalls (snd ?f) = epoch t"
      and invf: "task_inv (snd ?f)" and okf: "hook_ok ?T ?H ?f"
      by (simp_all add: stopping_def)
    from invf r have "core (snd ?f)" by (simp add: task_inv_def)
    then have hl: "hist_len (history (snd ?f)) (epoch t)" using cf by (simp add: core_def)
    from okf r cf have te: "trainedEpochs (fst ?f) = ?T + epoch t" by (simp add: hook_ok_def)
    from okf cf have pb: "0 < epoch t \<longrightarrow> trainingHistory (fst ?f) = history (snd ?f)"
      by (simp add: hook_ok_def)
    from r hl cf ef te pb show ?thesis unfolding f by (simp add: s)
  qed
  have part2: "hist_len (history (snd (exec net evs s0))) (completedEpochs (snd (exec net evs s0)))
            \<and> trainedEpochs (fst (exec net evs s0))
                = trainedEpochs h0 + completedEpochs (snd (exec net evs s0))
            \<and> (Stop \<notin> set evs \<longrightarrow> completedEpochs (snd (exec net evs s0)) = E)"
    if c: "list_all is_ctrl evs" and r: "pc (snd (exec net evs s0)) = Returned"
    for evs
  proof -
    let ?f = "exec net evs s0"
    from ctrl_exec_ok [OF c inv0 ok0, of net] have inv: "task_inv (snd ?f)" and ok: "hook_ok ?T ?H ?f"
      by simp_all
    have "same_static (snd s0) (snd ?f)" by (rule exec_static)
    then have Ef: "epochs (snd ?f) = E" using E by (simp add: same_static_def)
    from ok r have te: "trainedEpochs (fst ?f) = ?T + completedEpochs (snd ?f)"
      by (simp add: hook_ok_def)
    from inv r have "core (snd ?f)" by (simp add: task_inv_def)
    then have hl: "hist_len (history (snd ?f)) (completedEpochs (snd ?f))" by (simp add: core_def)
    have ce: "Stop \<notin> set evs \<longrightarrow> completedEpochs (snd ?f) = E"
    proof
      assume ns: "Stop \<notin> set evs"
      have "\<not> stopTrainingRef (fst ?f)" using c ns ns0 by (rule nostop_exec)
      with ok r Ef show "completedEpochs (snd ?f) = E" by (simp add: hook_ok_def)
    qed
    from hl te ce show ?thesis by simp
  qed
  from part1 part2 show ?thesis by blast
qed

theorem stop_before_validation_witness:
  "train demo_net 2 2 None demo_hook = Some demo_start
   \<and> in_batch_phase (snd (exec demo_net (replicate 6 Resume) demo_start))
   \<and> epoch (snd (exec demo_net (replicate 6 Resume) demo_start)) = 1
   \<and> pc (snd (exec demo_net (replicate 6 Resume @ Stop # [Resume, Pause, Resume]) demo_start)) = Returned
   \<and> hist_len (history (snd (exec demo_net (replicate 6 Resume @ Stop # [Resume, Pause, Resume]) demo_start))) 1
   \<and> trainedEpochs (fst (exec demo_net (replicate 6 Resume @ Stop # [Resume, Pause, Resume]) demo_start))
       = trainedEpochs demo_hook + 1
   \<and> pc (snd (exec demo_net (replicate 12 Resume) demo_start)) = Returned
   \<and> completedEpochs (snd (exec demo_net (replicate 12 Resume) demo_start)) = 2
   \<and> trainedEpochs (fst (exec demo_net (replicate 12 Resume) demo_start)) = trainedEpochs demo_hook + 2"
proof -
  have al: "models (fst demo_start) (activeModel (snd demo_start)) \<noteq> None" by code_simp
  have c1: "list_all is_ctrl (replicate 6 Resume :: nat event list)"
    and c3: "list_all is_ctrl (replicate 12 Resume :: nat event list)"
    by (simp_all add: list_all_iff)
  have c2: "list_all is_ctrl [Resume, Pause, Resume :: nat event]"
    and ns: "Stop \<notin> set (replicate 12 Resume :: nat event list)"
    and cnt: "2 \<le> count_list [Resume, Pause, Resume :: nat event] Resume"
    by simp_all
  have ph: "in_batch_phase (snd (exec demo_net (replicate 6 Resume) demo_start))"
    unfolding in_batch_phase_def by code_simp
  have ep: "epoch (snd (exec demo_net (replicate 6 Resume) demo_start)) = 1" by code_simp
  have rt: "pc (snd (exec demo_net (replicate 12 Resume) demo_start)) = Returned" by code_simp
  note t = stop_before_validation [OF demo_start_eq al]
  from t c1 c2 ph cnt
  have a: "pc (snd (exec demo_net (replicate 6 Resume @ Stop # [Resume, Pause, Resume]) demo_start)) = Returned
     \<and> hist_len (history (snd (exec demo_net (replicate 6 Resume @ Stop # [Resume, Pause, Resume]) demo_start)))
          (epoch (snd (exec demo_net (replicate 6 Resume) demo_start)))
     \<and> trainedEpochs (fst (exec demo_net (replicate 6 Resume @ Stop # [Resume, Pause, Resume]) demo_start))
       = trainedEpochs demo_hook + epoch (snd (exec demo_net (replicate 6 Resume) demo_start))"
    by blast
  from t c3 ns rt
  have b: "completedEpochs (snd (exec demo_net (replicate 12 Resume) demo_start)) = 2
     \<and> trainedEpochs (fst (exec demo_net (replicate 12 Resume) demo_start))
         = trainedEpochs demo_hook + completedEpochs (snd (exec demo_net (replicate 12 Resume) demo_start))"
    by blast
  from a b ph ep rt demo_start_eq show ?thesis by simp
qed

text \<open>
  C1 as stated fails when the stop request arrives while the validation scalars of the
  epoch are being read: epoch 1 is in progress, yet it is recorded and counted.
\<close>

theorem stop_during_validation_counterexample:
  "pc (snd (exec demo_net [Resume, Resume, Resume] demo_start)) = AwaitValLoss
   \<and> epoch (snd (exec demo_net [Resume, Resume, Resume] demo_start)) + 1 = 1
   \<and> pc (snd (exec demo_net [Resume, Resume, Resume, Stop, Resume, Resume, Resume] demo_start)) = Returned
   \<and> length (loss (history (snd (exec demo_net [Resume, Resume, Resume, Stop, Resume, Resume, Resume] demo_start)))) = 1
   \<and> length (loss (trainingHistory (fst (exec demo_net [Resume, Resume, Resume, Stop, Resume, Resume, Resume] demo_start)))) = 1
   \<and> evalCalls (snd (exec demo_net [Resume, Resume, Resume, Stop, Resume, Resume, Resume] demo_start)) = 1
   \<and> trainedEpochs (fst (exec demo_net [Resume, Resume, Resume, Stop, Resume, Resume, Resume] demo_start))
       = trainedEpochs demo_hook + 1"
  by code_simp


subsection \<open>The published history\<close>

lemma batch_head_th: "trainingHistory (fst (batch_head net h t)) = trainingHistory h"
  by (simp add: seg_defs split: option.splits sum.splits)

lemma epoch_head_th: "trainingHistory (fst (epoch_head net h t)) = trainingHistory h"
  by (simp add: seg_defs split: option.splits sum.splits)

lemma batch_done_th: "trainingHistory (fst (batch_done net h t)) = trainingHistory h"
  by (simp add: batch_done_def Let_def reject_def batch_head_th split: option.splits prod.splits)

lemma resume_th:
  assumes "pc t \<noteq> AwaitValAcc"
  shows "trainingHistory (fst (resume net h t)) = trainingHistory h"
proof (cases "pc t")
  case AwaitTrain
  then show ?thesis by (simp add: resume_def batch_done_th)
next
  case AwaitBatchFrame
  then show ?thesis by (simp add: resume_def batch_head_th)
next
  case AwaitEpochFrame
  then show ?thesis by (simp add: resume_def epoch_head_th)
qed (use assms in \<open>simp_all add: resume_def seg_defs split: option.splits sum.splits\<close>)

lemma resume_epoch_done:
  assumes "pc t = AwaitValAcc"
  shows "trainingHistory (fst (resume net h t)) = history (snd (resume net h t))
       \<and> completedEpochs (snd (resume net h t)) = completedEpochs t + 1"
  using assms by (simp add: resume_def epoch_done_def Let_def)

lemma task_inv_hist_len: "task_inv t \<Longrightarrow> hist_len (history t) (completedEpochs t)"
  by (auto simp: task_inv_def in_batches_def in_epoch_def core_def split: loc.splits)

lemma hist_len_empty: "hist_len emptyHistory 0"
  by (simp add: hist_len_def emptyHistory_def)

lemma initModel_th: "trainingHistory (initModel w0 h) = emptyHistory \<and> trainedEpochs (initModel w0 h) = 0"
  by (simp add: initModel_def setModel_def)

lemma installLoaded_th:
  "installLoaded src name (Inr w0) h = Inr h' \<Longrightarrow> trainingHistory h' = emptyHistory \<and> trainedEpochs h' = 0"
  by (auto simp: installLoaded_def setModel_def)

lemma installLoaded_Inr: "\<exists>h'. installLoaded src name (Inr w0) h = Inr h'"
  by (simp add: installLoaded_def)

lemma event_pub:
  assumes "task_inv (snd s)" and "\<exists>n. hist_len (trainingHistory (fst s)) n"
  shows "\<exists>n. hist_len (trainingHistory (fst (apply_event net ev s))) n"
proof (cases s)
  case (Pair h t)
  show ?thesis
  proof (cases ev)
    case Resume
    show ?thesis
    proof (cases "pc t = AwaitValAcc")
      case True
      have "task_inv (snd (resume net h t))" using assms(1) Pair by (simp add: resume_inv)
      then have "hist_len (history (snd (resume net h t))) (completedEpochs (snd (resume net h t)))"
        by (rule task_inv_hist_len)
      then show ?thesis using resume_epoch_done [OF True, of net h] Resume Pair by auto
    next
      case False
      then show ?thesis using resume_th [OF False, of net h] assms(2) Resume Pair by simp
    qed
  next
    case Stop
    then show ?thesis using assms(2) Pair by (simp add: stopTraining_def)
  next
    case Pause
    then show ?thesis using assms(2) Pair by (simp add: pauseTraining_def)
  next
    case (InitModel w0)
    then show ?thesis using hist_len_empty Pair by (auto simp: initModel_th)
  next
    case (LoadModel name loaded)
    then show ?thesis using hist_len_empty assms(2) Pair
      by (auto simp: loadModel_def split: sum.splits dest!: installLoaded_th [where src = SourceLoaded] simp: installLoaded_def)
  next
    case (LoadPretrained loaded)
    then show ?thesis using hist_len_empty assms(2) Pair
      by (auto simp: loadPretrained_def split: sum.splits simp: installLoaded_def setModel_def)
  qed
qed

lemma exec_pub:
  assumes "task_inv (snd s)" and "\<exists>n. hist_len (trainingHistory (fst s)) n"
  shows "\<exists>n. hist_len (trainingHistory (fst (exec net evs s))) n"
  using assms
proof (induction evs arbitrary: s)
  case Nil
  then show ?case by simp
next
  case (Cons ev evs)
  have "task_inv (snd (apply_event net ev s))" using Cons.prems(1) by (rule apply_event_inv)
  moreover have "\<exists>n. hist_len (trainingHistory (fst (apply_event net ev s))) n"
    using Cons.prems by (rule event_pub)
  ultimately show ?case using Cons.IH by simp
qed

lemma train_th:
  assumes "train net E bs mo h0 = Some s0"
  shows "trainingHistory (fst s0) = trainingHistory h0"
  using assms by (auto simp: train_def epoch_head_th split: option.splits)

text \<open>
  C9, as the code has it. In every state reached from the start of a run by resumptions
  and hook commands the four lists of the published history have one common length, as
  have those of the history of the run, whose length is the number of epochs the run
  has completed. Creating or loading a model empties the published history; a stop
  request leaves it alone; and when an epoch completes, the published history becomes
  the history of the current run, one entry per epoch completed in this run.
\<close>

theorem history_shape:
  assumes "train net E bs mo h0 = Some s0"
    and "\<exists>n. hist_len (trainingHistory h0) n"
  shows "(\<exists>n. hist_len (trainingHistory (fst (exec net evs s0))) n)
       \<and> hist_len (history (snd (exec net evs s0))) (completedEpochs (snd (exec net evs s0)))
       \<and> hist_len (trainingHistory (fst (exec net (evs @ [InitModel w0]) s0))) 0
       \<and> hist_len (trainingHistory (fst (exec net (evs @ [LoadModel name (Inr w0)]) s0))) 0
       \<and> hist_len (trainingHistory (fst (exec net (evs @ [LoadPretrained (Inr w0)]) s0))) 0
       \<and> trainingHistory (fst (exec net (evs @ [Stop]) s0)) = trainingHistory (fst (exec net evs s0))
       \<and> (pc (snd (exec net evs s0)) = AwaitValAcc \<longrightarrow>
            trainingHistory (fst (exec net (evs @ [Resume]) s0))
              = history (snd (exec net (evs @ [Resume]) s0))
            \<and> completedEpochs (snd (exec net (evs @ [Resume]) s0))
              = completedEpochs (snd (exec net evs s0)) + 1
            \<and> hist_len (trainingHistory (fst (exec net (evs @ [Resume]) s0)))
                (completedEpochs (snd (exec net (evs @ [Resume]) s0))))"
proof -
  obtain h1 t1 where s0: "s0 = (h1, t1)" by (cases s0)
  have inv0: "task_inv (snd s0)" using train_inv [OF assms(1) [unfolded s0]] by (simp add: s0)
  have pub0: "\<exists>n. hist_len (trainingHistory (fst s0)) n"
    using assms(2) train_th [OF assms(1)] by simp
  obtain h t where s: "exec net evs s0 = (h, t)" by (cases "exec net evs s0")
  have inv: "task_inv t" using exec_inv [OF inv0, of net evs] by (simp add: s)
  have a: "\<exists>n. hist_len (trainingHistory (fst (exec net evs s0))) n"
    using inv0 pub0 by (rule exec_pub)
  have b: "hist_len (history (snd (exec net evs s0))) (completedEpochs (snd (exec net evs s0)))"
    using inv by (simp add: s task_inv_hist_len)
  have c: "hist_len (trainingHistory (fst (exec net (evs @ [InitModel w0]) s0))) 0"
    by (simp add: exec_append s initModel_th hist_len_empty)
  have d: "hist_len (trainingHistory (fst (exec net (evs @ [LoadModel name (Inr w0)]) s0))) 0"
    by (simp add: exec_append s loadModel_def installLoaded_def setModel_def hist_len_empty)
  have e: "hist_len (trainingHistory (fst (exec net (evs @ [LoadPretrained (Inr w0)]) s0))) 0"
    by (simp add: exec_append s loadPretrained_def installLoaded_def setModel_def hist_len_empty)
  have f: "trainingHistory (fst (exec net (evs @ [Stop]) s0)) = trainingHistory (fst (exec net evs s0))"
    by (simp add: exec_append s stopTraining_def)
  have g: "pc (snd (exec net evs s0)) = AwaitValAcc \<longrightarrow>
            trainingHistory (fst (exec net (evs @ [Resume]) s0))
              = history (snd (exec net (evs @ [Resume]) s0))
            \<and> completedEpochs (snd (exec net (evs @ [Resume]) s0))
              = completedEpochs (snd (exec net evs s0)) + 1
            \<and> hist_len (trainingHistory (fst (exec net (evs @ [Resume]) s0)))
                (completedEpochs (snd (exec net (evs @ [Resume]) s0)))"
  proof
    assume "pc (snd (exec net evs s0)) = AwaitValAcc"
    then have p: "pc t = AwaitValAcc" by (simp add: s)
    have r: "exec net (evs @ [Resume]) s0 = resume net h t" by (simp add: exec_append s)
    have "task_inv (snd (resume net h t))" using inv by (rule resume_inv)
    then have "hist_len (history (snd (resume net h t))) (completedEpochs (snd (resume net h t)))"
      by (rule task_inv_hist_len)
    with resume_epoch_done [OF p, of net h]
    show "trainingHistory (fst (exec net (evs @ [Resume]) s0))
              = history (snd (exec net (evs @ [Resume]) s0))
            \<and> completedEpochs (snd (exec net (evs @ [Resume]) s0))
              = completedEpochs (snd (exec net evs s0)) + 1
            \<and> hist_len (trainingHistory (fst (exec net (evs @ [Resume]) s0)))
                (completedEpochs (snd (exec net (evs @ [Resume]) s0)))"
      unfolding r by (simp add: s)
  qed
  from a b c d e f g show ?thesis by blast
qed

theorem history_shape_witness:
  "train demo_net 2 2 None demo_hook = Some demo_start
   \<and> hist_len (trainingHistory demo_hook) 0
   \<and> pc (snd (exec demo_net (replicate 4 Resume) demo_start)) = AwaitValAcc
   \<and> trainingHistory (fst (exec demo_net (replicate 4 Resume @ [Resume]) demo_start))
       = history (snd (exec demo_net (replicate 4 Resume @ [Resume]) demo_start))
   \<and> completedEpochs (snd (exec demo_net (replicate 4 Resume @ [Resume]) demo_start)) = 1
   \<and> hist_len (trainingHistory (fst (exec demo_net (replicate 4 Resume @ [Resume]) demo_start))) 1"
proof -
  have h0: "hist_len (trainingHistory demo_hook) 0"
    by (simp add: demo_hook_def hist_len_empty)
  then have ex: "\<exists>n. hist_len (trainingHistory demo_hook) n" by blast
  have p: "pc (snd (exec demo_net (replicate 4 Resume) demo_start)) = AwaitValAcc" by code_simp
  have c: "completedEpochs (snd (exec demo_net (replicate 4 Resume) demo_start)) = 0" by code_simp
  note t = history_shape [OF demo_start_eq ex, of "replicate 4 Resume"]
  from t p have
    a: "trainingHistory (fst (exec demo_net (replicate 4 Resume @ [Resume]) demo_start))
       = history (snd (exec demo_net (replicate 4 Resume @ [Resume]) demo_start))"
    and b: "completedEpochs (snd (exec demo_net (replicate 4 Resume @ [Resume]) demo_start))
       = completedEpochs (snd (exec demo_net (replicate 4 Resume) demo_start)) + 1"
    and d: "hist_len (trainingHistory (fst (exec demo_net (replicate 4 Resume @ [Resume]) demo_start)))
       (completedEpochs (snd (exec demo_net (replicate 4 Resume @ [Resume]) demo_start)))"
    by blast+
  from b c have b': "completedEpochs (snd (exec demo_net (replicate 4 Resume @ [Resume]) demo_start)) = 1"
    by simp
  from demo_start_eq h0 p a b' d show ?thesis by simp
qed

text \<open>
  C9 as stated fails for the second run on one model: the model has been trained for
  two epochs (four updates), the published history has one entry.
\<close>

theorem history_restarts_counterexample:
  "pc (snd demo_first_run) = Returned
   \<and> pc (snd demo_second_run) = Returned
   \<and> model demo_hook = Some 0 \<and> model (fst demo_second_run) = Some 0
   \<and> models (fst demo_second_run) 0 = Some 4
   \<and> trainedEpochs (fst demo_second_run) = 2
   \<and> length (loss (trainingHistory (fst demo_second_run))) = 1"
  by code_simp


subsection \<open>Replacing the model\<close>

text \<open>
  What the replacing commands do in any state of the hook: none of them looks at the
  training flag or at the stop and pause flags.
\<close>

lemma replacement_installs:
  "model (initModel w0 h) = Some (nextModel h)
   \<and> models (initModel w0 h) (nextModel h) = Some w0
   \<and> isTraining (initModel w0 h) = isTraining h
   \<and> (\<exists>h'. loadModel name (Inr w0) h = Inr h' \<and> model h' = Some (nextModel h)
            \<and> models h' (nextModel h) = Some w0 \<and> isTraining h' = isTraining h)
   \<and> (\<exists>h'. loadPretrained (Inr w0) h = Inr h' \<and> model h' = Some (nextModel h)
            \<and> models h' (nextModel h) = Some w0 \<and> isTraining h' = isTraining h)
   \<and> loadModel name (Inl err) h = Inl err
   \<and> loadPretrained (Inl err) h = Inl err"
  by (auto simp: initModel_def loadModel_def loadPretrained_def installLoaded_def setModel_def
      split: option.splits)

text \<open>
  When the active model of the hook is the one a run trains, replacing it disposes that
  model; a run with a batch in flight then throws at its next resumption, before the
  code that clears \<open>isTraining\<close>.
\<close>

lemma replaced_run_rejects:
  assumes "pc t = AwaitTrain" and "models h (activeModel t) = None"
  shows "pc (snd (resume net h t)) = Rejected
       \<and> fst (resume net h t) = h
       \<and> resume net (fst (resume net h t)) (snd (resume net h t)) = resume net h t"
  using assms by (simp add: resume_def batch_done_def reject_def)

lemma load_mid_run_rejects:
  assumes "pc t = AwaitTrain" and "model h = Some (activeModel t)"
    and "nextModel h \<noteq> activeModel t"
    and "loadModel name (Inr w0) h = Inr h'"
  shows "model h' = Some (nextModel h)
       \<and> models h' (activeModel t) = None
       \<and> pc (snd (resume net h' t)) = Rejected
       \<and> isTraining (fst (resume net h' t)) = isTraining h"
proof -
  from assms(4) have h': "h' = (setModel (nextModel h)
                  (h\<lparr>models := (models h)(nextModel h \<mapsto> w0), nextModel := nextModel h + 1\<rparr>))
                \<lparr>modelSource := Some SourceLoaded, modelName := Some name, trainedEpochs := 0,
                 lastValAccuracy := None, trainingHistory := emptyHistory\<rparr>"
    by (simp add: loadModel_def installLoaded_def)
  have d: "models h' (activeModel t) = None"
    unfolding h' using assms(2,3) by (simp add: setModel_def)
  have m: "model h' = Some (nextModel h)" and i: "isTraining h' = isTraining h"
    unfolding h' by (simp_all add: setModel_def)
  from replaced_run_rejects [OF assms(1) d, of net] m d i show ?thesis by simp
qed

text \<open>
  C8: a command that replaces the active model while a run is in progress is to be
  refused, leaving the active model as it is. The hook has no such check, and while the
  application disables its model selector during training, the Load button of its model
  controls stays enabled, so \<open>loadModel\<close> can run in the middle of a run. Below, on
  the run \<open>demo_start\<close> with a batch in flight: the load is not refused, the loaded
  model becomes the active one, the model the loop is training is disposed, the next
  resumption of the loop throws, and \<open>isTraining\<close> is still set after further
  resumptions and a stop request.
\<close>

theorem load_while_training_disposes_model:
  "isTraining (fst demo_start)
   \<and> pc (snd demo_start) = AwaitTrain
   \<and> model (fst demo_start) = Some 0
   \<and> activeModel (snd demo_start) = 0
   \<and> models (fst demo_start) 0 = Some 0
   \<and> (case loadModel ''m'' (Inr 5) (fst demo_start) of
         Inl err \<Rightarrow> False
       | Inr h \<Rightarrow> model h = Some 1 \<and> models h 1 = Some 5 \<and> models h 0 = None \<and> isTraining h)
   \<and> model (fst (exec demo_net [LoadModel ''m'' (Inr 5)] demo_start)) = Some 1
   \<and> models (fst (exec demo_net [LoadModel ''m'' (Inr 5)] demo_start)) 0 = None
   \<and> pc (snd (exec demo_net [LoadModel ''m'' (Inr 5), Resume] demo_start)) = Rejected
   \<and> isTraining (fst (exec demo_net [LoadModel ''m'' (Inr 5), Resume] demo_start))
   \<and> pc (snd (exec demo_net [LoadModel ''m'' (Inr 5), Resume, Resume, Stop, Resume] demo_start)) = Rejected
   \<and> isTraining (fst (exec demo_net [LoadModel ''m'' (Inr 5), Resume, Resume, Stop, Resume] demo_start))
   \<and> trainedEpochs (fst (exec demo_net [LoadModel ''m'' (Inr 5), Resume, Resume, Stop, Resume] demo_start)) = 0"
  by code_simp

end
